theory Spec2Isabelle
  imports Complex_Main
begin

section \<open>JavaScript numbers\<close>

text \<open>
  The script computes with JavaScript numbers. They are modelled as exact reals extended
  with the three non-finite values of IEEE arithmetic, so that a division by zero yields
  what it yields in the script (an infinity, or NaN for 0/0) instead of HOL's \<open>x / 0 = 0\<close>,
  and so that every comparison with NaN is false. Rounding is not modelled: all finite
  arithmetic is exact. The sign of zero is not modelled either: a zero divisor counts as
  positive zero.
\<close>

datatype jsnum = Fin real | PInf | NInf | NaN

instantiation jsnum :: "{plus, minus, uminus, times, divide, inverse, abs, ord}"
begin

fun uminus_jsnum :: "jsnum \<Rightarrow> jsnum" where
  "uminus_jsnum (Fin a) = Fin (- a)"
| "uminus_jsnum PInf = NInf"
| "uminus_jsnum NInf = PInf"
| "uminus_jsnum NaN = NaN"

fun plus_jsnum :: "jsnum \<Rightarrow> jsnum \<Rightarrow> jsnum" where
  "plus_jsnum (Fin a) (Fin b) = Fin (a + b)"
| "plus_jsnum NaN _ = NaN"
| "plus_jsnum _ NaN = NaN"
| "plus_jsnum PInf NInf = NaN"
| "plus_jsnum NInf PInf = NaN"
| "plus_jsnum PInf _ = PInf"
| "plus_jsnum _ PInf = PInf"
| "plus_jsnum NInf _ = NInf"
| "plus_jsnum _ NInf = NInf"

definition minus_jsnum :: "jsnum \<Rightarrow> jsnum \<Rightarrow> jsnum" where
  "minus_jsnum a b = a + (- b)"

fun times_jsnum :: "jsnum \<Rightarrow> jsnum \<Rightarrow> jsnum" where
  "times_jsnum (Fin a) (Fin b) = Fin (a * b)"
| "times_jsnum NaN _ = NaN"
| "times_jsnum _ NaN = NaN"
| "times_jsnum (Fin a) PInf = (if a = 0 then NaN else if 0 < a then PInf else NInf)"
| "times_jsnum (Fin a) NInf = (if a = 0 then NaN else if 0 < a then NInf else PInf)"
| "times_jsnum PInf (Fin b) = (if b = 0 then NaN else if 0 < b then PInf else NInf)"
| "times_jsnum NInf (Fin b) = (if b = 0 then NaN else if 0 < b then NInf else PInf)"
| "times_jsnum PInf PInf = PInf"
| "times_jsnum PInf NInf = NInf"
| "times_jsnum NInf PInf = NInf"
| "times_jsnum NInf NInf = PInf"

fun divide_jsnum :: "jsnum \<Rightarrow> jsnum \<Rightarrow> jsnum" where
  "divide_jsnum (Fin a) (Fin b) =
     (if b = 0 then (if a = 0 then NaN else if 0 < a then PInf else NInf)
      else Fin (a / b))"
| "divide_jsnum NaN _ = NaN"
| "divide_jsnum _ NaN = NaN"
| "divide_jsnum (Fin a) PInf = Fin 0"
| "divide_jsnum (Fin a) NInf = Fin 0"
| "divide_jsnum PInf (Fin b) = (if 0 \<le> b then PInf else NInf)"
| "divide_jsnum NInf (Fin b) = (if 0 \<le> b then NInf else PInf)"
| "divide_jsnum PInf PInf = NaN"
| "divide_jsnum PInf NInf = NaN"
| "divide_jsnum NInf PInf = NaN"
| "divide_jsnum NInf NInf = NaN"

definition inverse_jsnum :: "jsnum \<Rightarrow> jsnum" where
  "inverse_jsnum a = divide (Fin 1) a"

fun abs_jsnum :: "jsnum \<Rightarrow> jsnum" where
  "abs_jsnum (Fin a) = Fin \<bar>a\<bar>"
| "abs_jsnum PInf = PInf"
| "abs_jsnum NInf = PInf"
| "abs_jsnum NaN = NaN"

fun less_jsnum :: "jsnum \<Rightarrow> jsnum \<Rightarrow> bool" where
  "less_jsnum (Fin a) (Fin b) = (a < b)"
| "less_jsnum NaN _ = False"
| "less_jsnum _ NaN = False"
| "less_jsnum _ NInf = False"
| "less_jsnum PInf _ = False"
| "less_jsnum NInf _ = True"
| "less_jsnum _ PInf = True"

fun less_eq_jsnum :: "jsnum \<Rightarrow> jsnum \<Rightarrow> bool" where
  "less_eq_jsnum (Fin a) (Fin b) = (a \<le> b)"
| "less_eq_jsnum NaN _ = False"
| "less_eq_jsnum _ NaN = False"
| "less_eq_jsnum NInf _ = True"
| "less_eq_jsnum _ PInf = True"
| "less_eq_jsnum _ NInf = False"
| "less_eq_jsnum PInf _ = False"

instance ..

end

text \<open>\<open>Math.min\<close>: NaN if either argument is NaN, the smaller one otherwise.\<close>

definition Math_min :: "jsnum \<Rightarrow> jsnum \<Rightarrow> jsnum" where
  "Math_min a b = (if a = NaN \<or> b = NaN then NaN else if a \<le> b then a else b)"

text \<open>
  The truthiness test behind \<open>v || d\<close> on an optional number: an omitted argument
  (\<open>undefined\<close>, here \<open>None\<close>), a zero and NaN are falsy and give the default.
\<close>

definition or_default :: "jsnum option \<Rightarrow> jsnum \<Rightarrow> jsnum" where
  "or_default v d =
     (case v of None \<Rightarrow> d | Some x \<Rightarrow> if x = Fin 0 \<or> x = NaN then d else x)"

definition is_finite :: "jsnum \<Rightarrow> bool" where
  "is_finite x = (case x of Fin _ \<Rightarrow> True | _ \<Rightarrow> False)"

section \<open>Car specification and constants\<close>

definition CAR_length :: jsnum where "CAR_length = Fin 7.0"
definition CAR_width :: jsnum where "CAR_width = Fin 1.75"
definition CAR_stockHeight :: jsnum where "CAR_stockHeight = Fin 1.25"
definition CAR_noseHeight :: jsnum where "CAR_noseHeight = Fin 0.05"
definition CAR_frontHeight :: jsnum where "CAR_frontHeight = Fin 0.25"
definition CAR_rearHeight :: jsnum where "CAR_rearHeight = Fin 0.50"
definition CAR_tailHeight :: jsnum where "CAR_tailHeight = Fin 0.55"
definition CAR_frontAxle :: jsnum where "CAR_frontAxle = Fin 1.75"
definition CAR_rearAxle :: jsnum where "CAR_rearAxle = Fin 6.0"
definition CAR_rawWoodWeight :: jsnum where "CAR_rawWoodWeight = Fin 3.42"
definition CAR_wheelAxleWeight :: jsnum where "CAR_wheelAxleWeight = Fin 0.49"

definition PUTTY_DENSITY :: jsnum where "PUTTY_DENSITY = Fin 11.0"
definition STOCK_VOLUME :: jsnum where "STOCK_VOLUME = Fin 7.0 * Fin 1.75 * Fin 1.25"
definition WOOD_DENSITY :: jsnum where "WOOD_DENSITY = CAR_rawWoodWeight / STOCK_VOLUME"
definition TARGET_WEIGHT :: jsnum where "TARGET_WEIGHT = Fin 5.0"
definition TARGET_COG :: jsnum where "TARGET_COG = Fin 5.0"

section \<open>Profile height\<close>

definition profileHeight :: "jsnum \<Rightarrow> jsnum" where
  "profileHeight x =
     (if x \<le> Fin 0 then CAR_noseHeight
      else if x \<ge> CAR_length then CAR_tailHeight
      else if x \<le> CAR_frontAxle then
        (let t = x / CAR_frontAxle
         in CAR_noseHeight + t * (CAR_frontHeight - CAR_noseHeight))
      else if x \<le> CAR_rearAxle then
        (let t = (x - CAR_frontAxle) / (CAR_rearAxle - CAR_frontAxle)
         in CAR_frontHeight + t * (CAR_rearHeight - CAR_frontHeight))
      else
        (let t = (x - CAR_rearAxle) / (CAR_length - CAR_rearAxle)
         in CAR_rearHeight + t * (CAR_tailHeight - CAR_rearHeight)))"

section \<open>Numerical integration (Simpson's rule)\<close>

text \<open>
  The loop \<open>for (let i = 1; i < n; i++) sum += (i % 2 === 0 ? 2 : 4) * fn(a + i * h)\<close>,
  with the running sum as accumulator.
\<close>

function integrate_loop ::
  "(jsnum \<Rightarrow> jsnum) \<Rightarrow> jsnum \<Rightarrow> jsnum \<Rightarrow> int \<Rightarrow> int \<Rightarrow> jsnum \<Rightarrow> jsnum" where
  "integrate_loop fn a h n i sum_acc =
     (if i < n then
        (let x = a + Fin (of_int i) * h
         in integrate_loop fn a h n (i + 1)
              (sum_acc + (if i mod 2 = 0 then Fin 2 else Fin 4) * fn x))
      else sum_acc)"
  by pat_completeness auto
termination
  by (relation "measure (\<lambda>(fn, a, h, n, i, sum_acc). nat (n - i))") auto

declare integrate_loop.simps [simp del]

text \<open>
  \<open>integrate(fn, a, b, n = 1000)\<close>: the panel count is an optional integer, \<open>None\<close> when
  the caller omits it.
\<close>

definition integrate :: "(jsnum \<Rightarrow> jsnum) \<Rightarrow> jsnum \<Rightarrow> jsnum \<Rightarrow> int option \<Rightarrow> jsnum" where
  "integrate fn a b n_arg =
     (let n = (case n_arg of None \<Rightarrow> 1000 | Some m \<Rightarrow> m)
      in if a \<ge> b then Fin 0
         else
           (let n = (if n mod 2 \<noteq> 0 then n + 1 else n);
                h = (b - a) / Fin (of_int n);
                sum_acc = fn a + fn b;
                sum_acc = integrate_loop fn a h n 1 sum_acc
            in sum_acc * h / Fin 3))"

section \<open>Cavity analysis\<close>

text \<open>
  The object returned by both analyzers. \<open>depth\<close> is present only for a bottom pocket;
  \<open>label\<close> is \<open>None\<close> when the caller omits it. In the functions below a local
  constant of the script that has the name of a field carries a prime.
\<close>

record cavity =
  xStart :: jsnum
  xEnd :: jsnum
  depth :: "jsnum option"
  cavityWidth :: jsnum
  cavVol :: jsnum
  cavCogX :: jsnum
  woodRemoved :: jsnum
  puttyWeight :: jsnum
  netChange :: jsnum
  label :: "string option"

definition analyzeThroughCut ::
  "jsnum \<Rightarrow> jsnum \<Rightarrow> jsnum option \<Rightarrow> string option \<Rightarrow> cavity" where
  "analyzeThroughCut xS xE cavityWidth_arg label_arg =
     (let w = or_default cavityWidth_arg CAR_width;
          cavVol' = integrate (\<lambda>x. profileHeight x * w) xS xE None;
          cavMoment = integrate (\<lambda>x. x * profileHeight x * w) xS xE None;
          cavCogX' = (if cavVol' > Fin 0 then cavMoment / cavVol' else Fin 0);
          woodRemoved' = cavVol' * WOOD_DENSITY;
          puttyWeight' = cavVol' * PUTTY_DENSITY;
          netChange' = puttyWeight' - woodRemoved'
      in \<lparr> xStart = xS, xEnd = xE, depth = None, cavityWidth = w, cavVol = cavVol',
           cavCogX = cavCogX', woodRemoved = woodRemoved', puttyWeight = puttyWeight',
           netChange = netChange', label = label_arg \<rparr>)"

definition analyzeBottomPocket ::
  "jsnum \<Rightarrow> jsnum \<Rightarrow> jsnum \<Rightarrow> jsnum option \<Rightarrow> string option \<Rightarrow> cavity" where
  "analyzeBottomPocket xS xE depth_arg cavityWidth_arg label_arg =
     (let w = or_default cavityWidth_arg CAR_width;
          cavVol' = integrate
                  (\<lambda>x. let maxDepth = profileHeight x;
                           actualDepth = Math_min depth_arg maxDepth
                       in actualDepth * w) xS xE None;
          cavMoment = integrate
                  (\<lambda>x. let maxDepth = profileHeight x;
                           actualDepth = Math_min depth_arg maxDepth
                       in x * actualDepth * w) xS xE None;
          cavCogX' = (if cavVol' > Fin 0 then cavMoment / cavVol' else Fin 0);
          woodRemoved' = cavVol' * WOOD_DENSITY;
          puttyWeight' = cavVol' * PUTTY_DENSITY;
          netChange' = puttyWeight' - woodRemoved'
      in \<lparr> xStart = xS, xEnd = xE, depth = Some depth_arg, cavityWidth = w,
           cavVol = cavVol', cavCogX = cavCogX', woodRemoved = woodRemoved',
           puttyWeight = puttyWeight', netChange = netChange', label = label_arg \<rparr>)"

section \<open>Full car weight and centre of gravity\<close>

record car_result =
  woodWeight :: jsnum
  puttyWeight_total :: jsnum
  wheelWeight :: jsnum
  totalWeight :: jsnum
  cogX :: jsnum

text \<open>
  The fill fraction is optional: \<open>None\<close> is the omitted (\<open>undefined\<close>) argument. The
  \<open>for ... of\<close> loops are folds from left to right; the first one carries both running
  totals.
\<close>

definition computeCarWithCavity :: "jsnum \<Rightarrow> cavity list \<Rightarrow> jsnum option \<Rightarrow> car_result" where
  "computeCarWithCavity baseProfWeight cavities puttyFillFraction_arg =
     (let puttyFillFraction =
            (case puttyFillFraction_arg of None \<Rightarrow> Fin 1.0 | Some f \<Rightarrow> f);
          (totalWoodRemoved, totalPuttyWeight) =
            fold (\<lambda>c (totalWoodRemoved, totalPuttyWeight).
                    (totalWoodRemoved + woodRemoved c,
                     totalPuttyWeight + cavVol c * PUTTY_DENSITY * puttyFillFraction))
              cavities (Fin 0, Fin 0);
          woodWeight' = baseProfWeight - totalWoodRemoved;
          puttyWeight' = totalPuttyWeight;
          wheelWeight' = CAR_wheelAxleWeight;
          totalWeight' = woodWeight' + puttyWeight' + wheelWeight';
          baseWoodMoment =
            integrate (\<lambda>x. x * profileHeight x * CAR_width * WOOD_DENSITY) (Fin 0) CAR_length None;
          cavityWoodMoment =
            fold (\<lambda>c cavityWoodMoment.
                    cavityWoodMoment
                      + integrate (\<lambda>x. x * profileHeight x * cavityWidth c * WOOD_DENSITY)
                          (xStart c) (xEnd c) None)
              cavities (Fin 0);
          remainingWoodMoment = baseWoodMoment - cavityWoodMoment;
          puttyMoment =
            fold (\<lambda>c puttyMoment.
                    puttyMoment + cavCogX c * cavVol c * PUTTY_DENSITY * puttyFillFraction)
              cavities (Fin 0);
          perAxleWeight = wheelWeight' / Fin 2;
          wheelMoment = perAxleWeight * CAR_frontAxle + perAxleWeight * CAR_rearAxle;
          totalMoment = remainingWoodMoment + puttyMoment + wheelMoment;
          cogX' = totalMoment / totalWeight'
      in \<lparr> woodWeight = woodWeight', puttyWeight_total = puttyWeight',
           wheelWeight = wheelWeight', totalWeight = totalWeight', cogX = cogX' \<rparr>)"

section \<open>Fill fraction for the target weight\<close>

text \<open>\<open>Array.prototype.reduce\<close> with an initial value is \<open>foldl\<close>.\<close>

definition solveForTargetWeight :: "jsnum \<Rightarrow> cavity list \<Rightarrow> jsnum" where
  "solveForTargetWeight baseProfWeight cavities =
     (let totalWoodRemoved = foldl (\<lambda>s c. s + woodRemoved c) (Fin 0) cavities;
          totalMaxPutty = foldl (\<lambda>s c. s + cavVol c * PUTTY_DENSITY) (Fin 0) cavities;
          woodWeight' = baseProfWeight - totalWoodRemoved;
          wheelWeight' = CAR_wheelAxleWeight;
          neededPutty = TARGET_WEIGHT - woodWeight' - wheelWeight';
          fillFraction = neededPutty / totalMaxPutty
      in fillFraction)"

section \<open>Design F: grid search\<close>

text \<open>
  The body of the innermost loop of each of the two grid searches, for one candidate
  geometry. A candidate leaves the body in one of three ways: by the \<open>continue\<close> of the
  fill-fraction filter, by failing the tolerance test (nothing is pushed), or by being
  pushed onto the result list. The enumeration of the grid itself (start and end
  positions advancing by a fixed step) is not modelled, and the pushed record leaves
  out the \<open>region\<close> label, a string printed from the region bounds.
\<close>

datatype 'a candidate = Infeasible | Rejected | Kept 'a

record bestResult =
  br_xStart :: jsnum
  br_xEnd :: jsnum
  br_fillFrac :: jsnum
  br_cogErr :: jsnum
  br_wtErr :: jsnum
  br_cogX :: jsnum
  br_totalWeight :: jsnum
  br_cavVol :: jsnum
  br_puttyWeight :: jsnum

definition designF_single :: "jsnum \<Rightarrow> jsnum \<Rightarrow> jsnum \<Rightarrow> bestResult candidate" where
  "designF_single baseProfWeight xS xE =
     (let cav = analyzeThroughCut xS xE (Some CAR_width) None;
          fillFrac = solveForTargetWeight baseProfWeight [cav]
      in if fillFrac < Fin 0 \<or> fillFrac > Fin 1.0 then Infeasible
         else
           (let result = computeCarWithCavity baseProfWeight [cav] (Some fillFrac);
                cogErr = \<bar>cogX result - TARGET_COG\<bar>;
                wtErr = \<bar>totalWeight result - TARGET_WEIGHT\<bar>
            in if cogErr < Fin 0.05 \<and> wtErr < Fin 0.01 then
                 Kept \<lparr> br_xStart = xS, br_xEnd = xE, br_fillFrac = fillFrac,
                        br_cogErr = cogErr, br_wtErr = wtErr, br_cogX = cogX result,
                        br_totalWeight = totalWeight result, br_cavVol = cavVol cav,
                        br_puttyWeight = cavVol cav * PUTTY_DENSITY * fillFrac \<rparr>
               else Rejected))"

record twoResult =
  tr_frontCav :: "jsnum \<times> jsnum"
  tr_rearCav :: "jsnum \<times> jsnum"
  tr_fillFrac :: jsnum
  tr_cogErr :: jsnum
  tr_wtErr :: jsnum
  tr_cogX :: jsnum
  tr_totalWeight :: jsnum
  tr_totalCavVol :: jsnum
  tr_puttyWeight :: jsnum

definition designF_two ::
  "jsnum \<Rightarrow> jsnum \<Rightarrow> jsnum \<Rightarrow> jsnum \<Rightarrow> jsnum \<Rightarrow> twoResult candidate" where
  "designF_two baseProfWeight r_start r_end f_start f_end =
     (let rearCav = analyzeThroughCut r_start r_end (Some CAR_width) None;
          frontCav = analyzeThroughCut f_start f_end (Some CAR_width) None;
          allCavs = [frontCav, rearCav];
          fillFrac = solveForTargetWeight baseProfWeight allCavs
      in if fillFrac < Fin 0.01 \<or> fillFrac > Fin 1.0 then Infeasible
         else
           (let result = computeCarWithCavity baseProfWeight allCavs (Some fillFrac);
                cogErr = \<bar>cogX result - TARGET_COG\<bar>;
                wtErr = \<bar>totalWeight result - TARGET_WEIGHT\<bar>
            in if cogErr < Fin 0.03 \<and> wtErr < Fin 0.01 then
                 Kept \<lparr> tr_frontCav = (f_start, f_end), tr_rearCav = (r_start, r_end),
                        tr_fillFrac = fillFrac, tr_cogErr = cogErr, tr_wtErr = wtErr,
                        tr_cogX = cogX result, tr_totalWeight = totalWeight result,
                        tr_totalCavVol = cavVol frontCav + cavVol rearCav,
                        tr_puttyWeight = puttyWeight_total result \<rparr>
               else Rejected))"

section \<open>Design G: differential fill\<close>

record config =
  fStart :: jsnum
  fEnd :: jsnum
  rStart :: jsnum
  rEnd :: jsnum
  name :: string

definition configurations :: "config list" where
  "configurations =
     [\<lparr> fStart = Fin 3.5, fEnd = Fin 5.75, rStart = Fin 6.25, rEnd = Fin 6.95,
        name = ''wide mid + full rear'' \<rparr>,
      \<lparr> fStart = Fin 4.5, fEnd = Fin 5.75, rStart = Fin 6.25, rEnd = Fin 6.95,
        name = ''narrow mid + full rear'' \<rparr>,
      \<lparr> fStart = Fin 5.0, fEnd = Fin 5.75, rStart = Fin 6.25, rEnd = Fin 6.95,
        name = ''short mid + full rear'' \<rparr>,
      \<lparr> fStart = Fin 2.0, fEnd = Fin 5.75, rStart = Fin 6.25, rEnd = Fin 6.95,
        name = ''full span + full rear'' \<rparr>,
      \<lparr> fStart = Fin 4.0, fEnd = Fin 5.75, rStart = Fin 6.25, rEnd = Fin 6.75,
        name = ''mid-rear + short rear'' \<rparr>]"

text \<open>
  The body of the loop over the configurations, in parts: the coefficients of the 2x2
  system, its determinant, its solution by Cramer's rule (\<open>None\<close> is the \<open>continue\<close>
  of the singularity test), and the mass and moment sums that the verification block
  recomputes from the two fractions.
\<close>

record gSystem =
  g_fCav :: cavity
  g_rCav :: cavity
  g_woodWeight :: jsnum
  g_wheelWeight :: jsnum
  P1 :: jsnum
  P2 :: jsnum
  RHS1 :: jsnum
  g_remainingWoodMoment :: jsnum
  g_wheelMoment :: jsnum
  M1 :: jsnum
  M2 :: jsnum
  RHS2 :: jsnum

definition designG_system :: "jsnum \<Rightarrow> config \<Rightarrow> gSystem" where
  "designG_system baseProfWeight cfg =
     (let fCav = analyzeThroughCut (fStart cfg) (fEnd cfg) (Some CAR_width) None;
          rCav = analyzeThroughCut (rStart cfg) (rEnd cfg) (Some CAR_width) None;
          woodWeight' = baseProfWeight - woodRemoved fCav - woodRemoved rCav;
          wheelWeight' = CAR_wheelAxleWeight;
          P1' = cavVol fCav * PUTTY_DENSITY;
          P2' = cavVol rCav * PUTTY_DENSITY;
          RHS1' = TARGET_WEIGHT - woodWeight' - wheelWeight';
          baseWoodMoment =
            integrate (\<lambda>x. x * profileHeight x * CAR_width * WOOD_DENSITY) (Fin 0) CAR_length None;
          fCavWoodMoment =
            integrate (\<lambda>x. x * profileHeight x * CAR_width * WOOD_DENSITY) (fStart cfg) (fEnd cfg) None;
          rCavWoodMoment =
            integrate (\<lambda>x. x * profileHeight x * CAR_width * WOOD_DENSITY) (rStart cfg) (rEnd cfg) None;
          remainingWoodMoment = baseWoodMoment - fCavWoodMoment - rCavWoodMoment;
          perAxleWeight = wheelWeight' / Fin 2;
          wheelMoment = perAxleWeight * CAR_frontAxle + perAxleWeight * CAR_rearAxle;
          M1' = cavCogX fCav * P1';
          M2' = cavCogX rCav * P2';
          RHS2' = TARGET_COG * TARGET_WEIGHT - remainingWoodMoment - wheelMoment
      in \<lparr> g_fCav = fCav, g_rCav = rCav, g_woodWeight = woodWeight', g_wheelWeight = wheelWeight',
           P1 = P1', P2 = P2', RHS1 = RHS1', g_remainingWoodMoment = remainingWoodMoment,
           g_wheelMoment = wheelMoment, M1 = M1', M2 = M2', RHS2 = RHS2' \<rparr>)"

definition designG_det :: "gSystem \<Rightarrow> jsnum" where
  "designG_det s = P1 s * M2 s - P2 s * M1 s"

definition designG_fractions :: "gSystem \<Rightarrow> (jsnum \<times> jsnum) option" where
  "designG_fractions s =
     (let det = designG_det s
      in if \<bar>det\<bar> < Fin (1 / 10 ^ 10) then None
         else
           (let f1 = (RHS1 s * M2 s - RHS2 s * P2 s) / det;
                f2 = (RHS2 s * P1 s - RHS1 s * M1 s) / det
            in Some (f1, f2)))"

definition designG_totals :: "gSystem \<Rightarrow> jsnum \<Rightarrow> jsnum \<Rightarrow> jsnum \<times> jsnum" where
  "designG_totals s f1 f2 =
     (let actualPutty1 = f1 * P1 s;
          actualPutty2 = f2 * P2 s;
          totalWt = g_woodWeight s + actualPutty1 + actualPutty2 + g_wheelWeight s;
          totalMoment = g_remainingWoodMoment s + f1 * M1 s + f2 * M2 s + g_wheelMoment s;
          actualCog = totalMoment / totalWt
      in (totalWt, actualCog))"

record gResult =
  gr_cfg :: config
  gr_f1 :: jsnum
  gr_f2 :: jsnum
  gr_actualPutty1 :: jsnum
  gr_actualPutty2 :: jsnum
  gr_totalWt :: jsnum
  gr_actualCog :: jsnum
  gr_woodWeight :: jsnum
  gr_fCav :: cavity
  gr_rCav :: cavity

datatype gOutcome = G_Singular | G_Infeasible jsnum jsnum | G_Feasible gResult

definition designG_config :: "jsnum \<Rightarrow> config \<Rightarrow> gOutcome" where
  "designG_config baseProfWeight cfg =
     (let s = designG_system baseProfWeight cfg
      in case designG_fractions s of
           None \<Rightarrow> G_Singular
         | Some (f1, f2) \<Rightarrow>
             (let feasible = (f1 \<ge> Fin 0 \<and> f1 \<le> Fin 1.0 \<and> f2 \<ge> Fin 0 \<and> f2 \<le> Fin 1.0)
              in if feasible then
                   (let (totalWt, actualCog) = designG_totals s f1 f2
                    in G_Feasible
                         \<lparr> gr_cfg = cfg, gr_f1 = f1, gr_f2 = f2,
                           gr_actualPutty1 = f1 * P1 s, gr_actualPutty2 = f2 * P2 s,
                           gr_totalWt = totalWt, gr_actualCog = actualCog,
                           gr_woodWeight = g_woodWeight s,
                           gr_fCav = g_fCav s, gr_rCav = g_rCav s \<rparr>)
                 else G_Infeasible f1 f2))"

definition designG :: "jsnum \<Rightarrow> gResult list" where
  "designG baseProfWeight =
     concat (map (\<lambda>cfg. case designG_config baseProfWeight cfg of
                           G_Feasible r \<Rightarrow> [r] | _ \<Rightarrow> [])
                 configurations)"

section \<open>Design H: precise single cavity\<close>

definition designH_neededVol :: "jsnum \<Rightarrow> jsnum" where
  "designH_neededVol baseProfWeight =
     (TARGET_WEIGHT - baseProfWeight - CAR_wheelAxleWeight) / (PUTTY_DENSITY - WOOD_DENSITY)"

definition designH_neededCavCentroid :: "jsnum \<Rightarrow> jsnum" where
  "designH_neededCavCentroid baseProfWeight =
     (let baseWoodMoment =
            integrate (\<lambda>x. x * profileHeight x * CAR_width * WOOD_DENSITY) (Fin 0) CAR_length None;
          perAxleWeight = CAR_wheelAxleWeight / Fin 2;
          wheelMoment = perAxleWeight * CAR_frontAxle + perAxleWeight * CAR_rearAxle;
          neededCavMomentGeom =
            (TARGET_COG * TARGET_WEIGHT - baseWoodMoment - wheelMoment)
              / (PUTTY_DENSITY - WOOD_DENSITY)
      in neededCavMomentGeom / designH_neededVol baseProfWeight)"

record region =
  region_start :: jsnum
  region_end :: jsnum
  region_name :: string

definition validRegions :: "region list" where
  "validRegions =
     [\<lparr> region_start = Fin 0, region_end = Fin 1.5, region_name = ''nose'' \<rparr>,
      \<lparr> region_start = Fin 2.0, region_end = Fin 5.75, region_name = ''between axles'' \<rparr>,
      \<lparr> region_start = Fin 6.25, region_end = Fin 7.0, region_name = ''behind rear axle'' \<rparr>]"

text \<open>The bisection: \<open>for (let iter = 0; iter < 100; iter++)\<close> on the bracket \<open>(lo, hi)\<close>.\<close>

function designH_bisect ::
  "jsnum \<Rightarrow> jsnum \<Rightarrow> nat \<Rightarrow> jsnum \<Rightarrow> jsnum \<Rightarrow> jsnum \<times> jsnum" where
  "designH_bisect xS neededVol iter lo hi =
     (if iter < 100 then
        (let mid = (lo + hi) / Fin 2;
             vol = integrate (\<lambda>x. profileHeight x * CAR_width) xS mid None
         in if vol < neededVol then designH_bisect xS neededVol (iter + 1) mid hi
            else designH_bisect xS neededVol (iter + 1) lo mid)
      else (lo, hi))"
  by pat_completeness auto
termination
  by (relation "measure (\<lambda>(xS, neededVol, iter, lo, hi). 100 - iter)") auto

declare designH_bisect.simps [simp del]

text \<open>
  The end boundary found for one start position \<open>xS\<close> of a region: \<open>None\<close> when the body
  leaves by one of its two \<open>continue\<close> statements.
\<close>

definition designH_endBoundary :: "jsnum \<Rightarrow> jsnum \<Rightarrow> jsnum \<Rightarrow> jsnum option" where
  "designH_endBoundary neededVol regionEnd xS =
     (let lo = xS + Fin 0.001;
          hi = regionEnd;
          maxVol = integrate (\<lambda>x. profileHeight x * CAR_width) xS hi None
      in if maxVol < neededVol then None
         else
           (let (lo, hi) = designH_bisect xS neededVol 0 lo hi;
                xE = (lo + hi) / Fin 2
            in if xE > regionEnd then None else Some xE))"

record hSol =
  h_xS :: jsnum
  h_xE :: jsnum
  h_vol :: jsnum
  h_centroid :: jsnum

text \<open>One pass of the loop over \<open>xS\<close>, carrying \<open>bestErr\<close> and \<open>bestSol\<close>.\<close>

definition designH_step ::
  "jsnum \<Rightarrow> jsnum \<Rightarrow> jsnum \<Rightarrow> jsnum \<Rightarrow> jsnum \<times> hSol option \<Rightarrow> jsnum \<times> hSol option" where
  "designH_step neededVol neededCavCentroid regionEnd xS best =
     (case designH_endBoundary neededVol regionEnd xS of
        None \<Rightarrow> best
      | Some xE \<Rightarrow>
          (let vol = integrate (\<lambda>x. profileHeight x * CAR_width) xS xE None;
               mom = integrate (\<lambda>x. x * profileHeight x * CAR_width) xS xE None;
               centroid = mom / vol;
               err = \<bar>centroid - neededCavCentroid\<bar>
           in if err < fst best then
                (err, Some \<lparr> h_xS = xS, h_xE = xE, h_vol = vol, h_centroid = centroid \<rparr>)
              else best))"

section \<open>The quadrature as a function on the reals\<close>

text \<open>
  On finite arguments the integrator computes the composite Simpson sum below. The
  definitions of this section are not part of the script: they state, over the reals,
  what \<open>integrate\<close> returns, and the lemmas that follow prove that it does.
  \<open>panel_count\<close> is the panel count after the default and the rounding up to an even
  number.
\<close>

definition panel_count :: "int option \<Rightarrow> int" where
  "panel_count n_arg =
     (let n = (case n_arg of None \<Rightarrow> 1000 | Some m \<Rightarrow> m)
      in if n mod 2 \<noteq> 0 then n + 1 else n)"

definition simpson_weight :: "int \<Rightarrow> real" where
  "simpson_weight i = (if i mod 2 = 0 then 2 else 4)"

definition simpson :: "(real \<Rightarrow> real) \<Rightarrow> real \<Rightarrow> real \<Rightarrow> int \<Rightarrow> real" where
  "simpson g a b n =
     (g a + g b + (\<Sum>i \<in> {1..<n}. simpson_weight i * g (a + of_int i * ((b - a) / of_int n))))
       * ((b - a) / of_int n) / 3"

text \<open>
  The profile on the reals, the real value of a finite number, and the notions the
  statements need: a width that is omitted or a non-negative number, a configuration
  whose four positions are finite numbers, the total full-fill capacity of a cavity list
  (the divisor of the single-fill solve) and a cavity whose volume and removed wood mass
  are finite numbers.
\<close>

definition profile :: "real \<Rightarrow> real" where
  "profile x =
     (if x \<le> 0 then 0.05
      else if 7 \<le> x then 0.55
      else if x \<le> 1.75 then 0.05 + x / 1.75 * (0.25 - 0.05)
      else if x \<le> 6 then 0.25 + (x - 1.75) / (6 - 1.75) * (0.50 - 0.25)
      else 0.50 + (x - 6) / (7 - 6) * (0.55 - 0.50))"

fun real_of :: "jsnum \<Rightarrow> real" where
  "real_of (Fin x) = x"
| "real_of _ = 0"

text \<open>
  The volume of the full-width through-cut over \<open>[xS, e]\<close> where the profile is the
  line \<open>p + q * x\<close>.
\<close>

definition span_volume :: "real \<Rightarrow> real \<Rightarrow> real \<Rightarrow> real \<Rightarrow> real" where
  "span_volume p q xS e = 1.75 * (p * (e - xS) + q * (e\<^sup>2 - xS\<^sup>2) / 2)"


definition finite_config :: "config \<Rightarrow> bool" where
  "finite_config cfg \<longleftrightarrow>
     is_finite (fStart cfg) \<and> is_finite (fEnd cfg) \<and> is_finite (rStart cfg) \<and> is_finite (rEnd cfg)"

definition total_capacity :: "cavity list \<Rightarrow> jsnum" where
  "total_capacity cavities = foldl (\<lambda>s c. s + cavVol c * PUTTY_DENSITY) (Fin 0) cavities"

definition finite_cavity :: "cavity \<Rightarrow> bool" where
  "finite_cavity c \<longleftrightarrow> is_finite (cavVol c) \<and> is_finite (woodRemoved c)"

section \<open>Binary64 arithmetic\<close>

text \<open>
  The numbers of the script are IEEE 754 binary64 values, and every arithmetic operation
  of the script rounds its exact result to the nearest of them, ties to the even
  significand. \<open>round_real x\<close> is that nearest value as a real: the multiple of the spacing
  \<open>2 ^ quantum_exp x\<close> nearest to \<open>x\<close>, where the spacing is \<open>2 ^ (e - 52)\<close> for
  \<open>2 ^ e \<le> |x| < 2 ^ (e + 1)\<close> and never less than \<open>2 ^ (- 1074)\<close> (gradual underflow).
  \<open>round64\<close> adds the overflow to an infinity, from \<open>2 ^ 1024\<close> on. As above, the sign of
  zero is not modelled.
\<close>

definition round_half_even :: "real \<Rightarrow> int" where
  "round_half_even m =
     (let f = \<lfloor>m\<rfloor>; d = m - of_int f
      in if d < 1 / 2 then f else if 1 / 2 < d then f + 1
         else if even f then f else f + 1)"

definition quantum_exp :: "real \<Rightarrow> int" where
  "quantum_exp x = max \<lfloor>log 2 \<bar>x\<bar>\<rfloor> (- 1022) - 52"

definition round_real :: "real \<Rightarrow> real" where
  "round_real x =
     (if x = 0 then 0
      else of_int (round_half_even (x / 2 powr of_int (quantum_exp x)))
             * 2 powr of_int (quantum_exp x))"

definition overflow_threshold :: real where
  "overflow_threshold = 2 ^ 1024"

fun round64 :: "jsnum \<Rightarrow> jsnum" where
  "round64 (Fin x) =
     (let r = round_real x
      in if overflow_threshold \<le> r then PInf
         else if r \<le> - overflow_threshold then NInf else Fin r)"
| "round64 PInf = PInf"
| "round64 NInf = NInf"
| "round64 NaN = NaN"

declare round64.simps(1) [simp del]

text \<open>
  A number of the script under rounding. The arithmetic of \<open>double\<close> is the exact arithmetic
  of \<open>jsnum\<close> followed by \<open>round64\<close>; negation, absolute value and the comparisons are
  exact. \<open>D x\<close> is the literal \<open>x\<close> of the source text, rounded as every literal is.
\<close>

datatype double = Dbl jsnum

instantiation double :: "{plus, minus, uminus, times, divide, inverse, abs, ord}"
begin

fun uminus_double :: "double \<Rightarrow> double" where
  "uminus_double (Dbl a) = Dbl (- a)"

fun plus_double :: "double \<Rightarrow> double \<Rightarrow> double" where
  "plus_double (Dbl a) (Dbl b) = Dbl (round64 (a + b))"

fun minus_double :: "double \<Rightarrow> double \<Rightarrow> double" where
  "minus_double (Dbl a) (Dbl b) = Dbl (round64 (a - b))"

fun times_double :: "double \<Rightarrow> double \<Rightarrow> double" where
  "times_double (Dbl a) (Dbl b) = Dbl (round64 (a * b))"

fun divide_double :: "double \<Rightarrow> double \<Rightarrow> double" where
  "divide_double (Dbl a) (Dbl b) = Dbl (round64 (a / b))"

definition inverse_double :: "double \<Rightarrow> double" where
  "inverse_double a = divide (Dbl (Fin 1)) a"

fun abs_double :: "double \<Rightarrow> double" where
  "abs_double (Dbl a) = Dbl \<bar>a\<bar>"

fun less_double :: "double \<Rightarrow> double \<Rightarrow> bool" where
  "less_double (Dbl a) (Dbl b) = (a < b)"

fun less_eq_double :: "double \<Rightarrow> double \<Rightarrow> bool" where
  "less_eq_double (Dbl a) (Dbl b) = (a \<le> b)"

instance ..

end

definition D :: "real \<Rightarrow> double" where
  "D x = Dbl (round64 (Fin x))"

section \<open>Numerical integration in binary64\<close>

text \<open>
  \<open>integrate\<close> once more, with the same text, on \<open>double\<close>: every \<open>+\<close>, \<open>-\<close>, \<open>*\<close> and \<open>/\<close>
  is now a rounded operation.
\<close>

function integrate_loop64 ::
  "(double \<Rightarrow> double) \<Rightarrow> double \<Rightarrow> double \<Rightarrow> int \<Rightarrow> int \<Rightarrow> double \<Rightarrow> double" where
  "integrate_loop64 fn a h n i sum_acc =
     (if i < n then
        (let x = a + D (of_int i) * h
         in integrate_loop64 fn a h n (i + 1)
              (sum_acc + (if i mod 2 = 0 then D 2 else D 4) * fn x))
      else sum_acc)"
  by pat_completeness auto

termination
  by (relation "measure (\<lambda>(fn, a, h, n, i, sum_acc). nat (n - i))") auto

declare integrate_loop64.simps [simp del]

definition integrate64 :: "(double \<Rightarrow> double) \<Rightarrow> double \<Rightarrow> double \<Rightarrow> int option \<Rightarrow> double" where
  "integrate64 fn a b n_arg =
     (let n = (case n_arg of None \<Rightarrow> 1000 | Some m \<Rightarrow> m)
      in if a \<ge> b then D 0
         else
           (let n = (if n mod 2 \<noteq> 0 then n + 1 else n);
                h = (b - a) / D (of_int n);
                sum_acc = fn a + fn b;
                sum_acc = integrate_loop64 fn a h n 1 sum_acc
            in sum_acc * h / D 3))"

section \<open>Bookkeeping for rounding errors\<close>

text \<open>
  \<open>eps64\<close> is the unit roundoff \<open>2 ^ (- 53)\<close>. \<open>near k t\<close> says that \<open>t\<close> is a product of at
  most \<open>k\<close> rounding factors: it lies between \<open>(1 - eps64) ^ k\<close> and its inverse.
  \<open>mag k x\<close> bounds the magnitude of \<open>x\<close> between \<open>2 ^ (- k)\<close> and \<open>2 ^ k\<close>.
  \<open>weight_sum i\<close> is the sum of the Simpson weights of the two end points and of the
  interior nodes before node \<open>i\<close>.
\<close>

definition eps64 :: real where
  "eps64 = 1 / 2 ^ 53"

definition near :: "nat \<Rightarrow> real \<Rightarrow> bool" where
  "near k t \<longleftrightarrow> (1 - eps64) ^ k \<le> t \<and> t * (1 - eps64) ^ k \<le> 1"

definition mag :: "nat \<Rightarrow> real \<Rightarrow> bool" where
  "mag k x \<longleftrightarrow> 1 / 2 ^ k \<le> \<bar>x\<bar> \<and> \<bar>x\<bar> \<le> 2 ^ k"

definition weight_sum :: "int \<Rightarrow> real" where
  "weight_sum i = of_int (3 * i - 1 + (if even i then 1 else 0))"

section \<open>Arithmetic on finite numbers\<close>

lemma Fin_minus [simp]: "Fin a - Fin b = Fin (a - b)"
  by (simp add: minus_jsnum_def)

lemma Fin_divide [simp]: "b \<noteq> 0 \<Longrightarrow> Fin a / Fin b = Fin (a / b)"
  by simp

lemma int_ivl_step: "i < n \<Longrightarrow> {i..<n} = insert i {i + 1..<(n::int)}"
  by auto

lemma sum_int_ivl_step:
  "i < n \<Longrightarrow> (\<Sum>j \<in> {i..<n::int}. (f j :: real)) = f i + (\<Sum>j \<in> {i + 1..<n}. f j)"
  by (subst int_ivl_step) simp_all

section \<open>The integrator on finite arguments\<close>

lemma integrate_loop_Fin:
  assumes "\<And>i. i0 \<le> i \<Longrightarrow> i < n \<Longrightarrow> fn (Fin (a + of_int i * h)) = Fin (g (a + of_int i * h))"
  shows "integrate_loop fn (Fin a) (Fin h) n i0 (Fin s)
           = Fin (s + (\<Sum>i \<in> {i0..<n}. simpson_weight i * g (a + of_int i * h)))"
  using assms
proof (induction "nat (n - i0)" arbitrary: i0 s)
  case 0
  then have "\<not> i0 < n" by simp
  then show ?case by (simp add: integrate_loop.simps)
next
  case (Suc k)
  then have lt: "i0 < n" by linarith
  have k: "k = nat (n - (i0 + 1))" using Suc.hyps(2) by linarith
  have step: "integrate_loop fn (Fin a) (Fin h) n i0 (Fin s)
      = integrate_loop fn (Fin a) (Fin h) n (i0 + 1)
          (Fin (s + simpson_weight i0 * g (a + of_int i0 * h)))"
    using lt Suc.prems [of i0]
    by (subst integrate_loop.simps) (simp add: simpson_weight_def Let_def)
  have ih: "integrate_loop fn (Fin a) (Fin h) n (i0 + 1)
          (Fin (s + simpson_weight i0 * g (a + of_int i0 * h)))
       = Fin (s + simpson_weight i0 * g (a + of_int i0 * h)
            + (\<Sum>i \<in> {i0 + 1..<n}. simpson_weight i * g (a + of_int i * h)))"
    by (rule Suc.hyps(1) [OF k]) (use Suc.prems in auto)
  show ?case
    unfolding step ih by (simp add: sum_int_ivl_step [OF lt])
qed

lemma node_in_range:
  fixes a b :: real and i n :: int
  assumes "a < b" "0 \<le> i" "i \<le> n" "0 < n"
  shows "a \<le> a + of_int i * ((b - a) / of_int n)" "a + of_int i * ((b - a) / of_int n) \<le> b"
proof -
  define t where "t = real_of_int i / of_int n"
  have t0: "0 \<le> t" using assms by (simp add: t_def)
  have t1: "t \<le> 1" using assms by (simp add: t_def)
  have eq: "a + of_int i * ((b - a) / of_int n) = a + t * (b - a)" by (simp add: t_def)
  have "0 \<le> t * (b - a)"
    using t0 assms(1) by (intro mult_nonneg_nonneg) simp_all
  then show "a \<le> a + of_int i * ((b - a) / of_int n)" unfolding eq by linarith
  have "t * (b - a) \<le> 1 * (b - a)"
    using t1 assms(1) by (intro mult_right_mono) simp_all
  then have "t * (b - a) \<le> b - a" by simp
  then show "a + of_int i * ((b - a) / of_int n) \<le> b" unfolding eq by (simp add: algebra_simps)
qed

lemma integrate_unfold:
  "integrate fn a b n_arg =
     (if a \<ge> b then Fin 0
      else integrate_loop fn a ((b - a) / Fin (of_int (panel_count n_arg))) (panel_count n_arg) 1
             (fn a + fn b)
           * ((b - a) / Fin (of_int (panel_count n_arg))) / Fin 3)"
  by (simp add: integrate_def panel_count_def Let_def)

lemma integrate_Fin:
  assumes ab: "a < b" and n: "0 < panel_count n_arg"
    and fn: "\<And>x. a \<le> x \<Longrightarrow> x \<le> b \<Longrightarrow> fn (Fin x) = Fin (g x)"
  shows "integrate fn (Fin a) (Fin b) n_arg = Fin (simpson g a b (panel_count n_arg))"
proof -
  define m where "m = panel_count n_arg"
  have m: "0 < m" using n by (simp add: m_def)
  have mr: "real_of_int m \<noteq> 0" using m by simp
  have loop: "integrate_loop fn (Fin a) (Fin ((b - a) / of_int m)) m 1 (Fin (g a + g b))
      = Fin (g a + g b + (\<Sum>i \<in> {1..<m}. simpson_weight i * g (a + of_int i * ((b - a) / of_int m))))"
  proof (rule integrate_loop_Fin)
    fix i :: int assume i: "1 \<le> i" "i < m"
    show "fn (Fin (a + of_int i * ((b - a) / of_int m))) = Fin (g (a + of_int i * ((b - a) / of_int m)))"
      using node_in_range [OF ab, of i m] i m by (intro fn) simp_all
  qed
  have ends: "fn (Fin a) = Fin (g a)" "fn (Fin b) = Fin (g b)" using ab by (simp_all add: fn)
  have h: "(Fin b - Fin a) / Fin (of_int m) = Fin ((b - a) / of_int m)"
    using mr by simp
  have nab: "\<not> Fin b \<le> Fin a" using ab by simp
  show ?thesis
    unfolding integrate_unfold m_def [symmetric] h ends
    using nab by (simp add: loop simpson_def)
qed

lemma integrate_empty: "b \<le> a \<Longrightarrow> integrate fn a b n_arg = Fin 0"
  by (simp add: integrate_def)

section \<open>Simpson's rule is exact on quadratic polynomials\<close>

lemma int_ivl_top: "a \<le> n \<Longrightarrow> {a..<n + 1} = insert n {a..<n::int}"
  by auto

lemma sum_int_ivl_top:
  "a \<le> n \<Longrightarrow> (\<Sum>j \<in> {a..<n + 1::int}. (f j :: real)) = (\<Sum>j \<in> {a..<n}. f j) + f n"
  by (subst int_ivl_top) simp_all

lemma simpson_weight_even [simp]: "simpson_weight (2 * k) = 2"
  by (simp add: simpson_weight_def)

lemma simpson_weight_odd [simp]: "simpson_weight (2 * k + 1) = 4"
  by (simp add: simpson_weight_def)

lemma simpson_weight_sum_poly:
  "(\<Sum>i \<in> {1..<2 * int (Suc k)}.
       simpson_weight i * (al + be * of_int i + ga * (of_int i)\<^sup>2))
     = al * (6 * real (Suc k) - 2) + be * (6 * (real (Suc k))\<^sup>2 - 2 * real (Suc k))
       + ga * (8 * (real (Suc k)) ^ 3 - 4 * (real (Suc k))\<^sup>2)"
proof (induction k)
  case 0
  have "{1..<2 * int (Suc 0)} = {1}" by auto
  then show ?case by (simp add: simpson_weight_def)
next
  case (Suc k)
  have e: "2 * int (Suc (Suc k)) = (2 * int (Suc k) + 1) + 1" by simp
  have w1: "simpson_weight (2 * int (Suc k)) = 2" by (rule simpson_weight_even)
  have w2: "simpson_weight (2 * int (Suc k) + 1) = 4" by (rule simpson_weight_odd)
  show ?case
    unfolding e
    apply (subst sum_int_ivl_top, simp)
    apply (subst sum_int_ivl_top, simp)
    apply (subst Suc.IH)
    apply (simp only: w1 w2)
    apply (simp add: power2_eq_square power3_eq_cube algebra_simps)
    done
qed

lemma simpson_poly_Suc:
  fixes a b p q r :: real
  shows "simpson (\<lambda>x. p + q * x + r * x\<^sup>2) a b (2 * int (Suc k))
           = p * (b - a) + q * (b\<^sup>2 - a\<^sup>2) / 2 + r * (b ^ 3 - a ^ 3) / 3"
proof -
  define K where "K = real (Suc k)"
  define H where "H = (b - a) / (2 * K)"
  have K: "K \<noteq> 0" by (simp add: K_def)
  have b: "b = a + 2 * K * H" using K by (simp add: H_def)
  have n: "real_of_int (2 * int (Suc k)) = 2 * K" by (simp add: K_def)
  have h: "(b - a) / real_of_int (2 * int (Suc k)) = H" unfolding n H_def ..
  have node: "p + q * (a + real_of_int i * H) + r * (a + real_of_int i * H)\<^sup>2
      = (p + q * a + r * a\<^sup>2) + (q * H + 2 * r * a * H) * of_int i + (r * H\<^sup>2) * (of_int i)\<^sup>2"
    for i :: int
    by (simp add: power2_eq_square algebra_simps)
  have "simpson (\<lambda>x. p + q * x + r * x\<^sup>2) a b (2 * int (Suc k))
      = (p + q * a + r * a\<^sup>2 + (p + q * b + r * b\<^sup>2)
          + ((p + q * a + r * a\<^sup>2) * (6 * K - 2) + (q * H + 2 * r * a * H) * (6 * K\<^sup>2 - 2 * K)
              + (r * H\<^sup>2) * (8 * K ^ 3 - 4 * K\<^sup>2))) * H / 3"
    unfolding simpson_def h node simpson_weight_sum_poly K_def ..
  also have "\<dots> = p * (b - a) + q * (b\<^sup>2 - a\<^sup>2) / 2 + r * (b ^ 3 - a ^ 3) / 3"
    unfolding b by (simp add: power2_eq_square power3_eq_cube field_simps)
  finally show ?thesis .
qed

lemma even_pos_int: "0 < n \<Longrightarrow> n mod 2 = 0 \<Longrightarrow> \<exists>k. n = 2 * int (Suc k)" for n :: int
proof -
  assume a: "0 < n" "n mod 2 = 0"
  then have "n = 2 * int (Suc (nat (n div 2) - 1))" by (auto simp: nat_diff_distrib)
  then show ?thesis ..
qed

lemma panel_count_even: "panel_count n_arg mod 2 = 0"
  by (simp add: panel_count_def Let_def) presburger

lemma panel_count_None [simp]: "panel_count None = 1000"
  by (simp add: panel_count_def)

lemma simpson_poly:
  fixes a b p q r :: real
  assumes "0 < panel_count n_arg"
  shows "simpson (\<lambda>x. p + q * x + r * x\<^sup>2) a b (panel_count n_arg)
           = p * (b - a) + q * (b\<^sup>2 - a\<^sup>2) / 2 + r * (b ^ 3 - a ^ 3) / 3"
proof -
  obtain k where "panel_count n_arg = 2 * int (Suc k)"
    using even_pos_int [OF assms panel_count_even] by blast
  then show ?thesis by (simp only: simpson_poly_Suc)
qed

lemma simpson_const:
  assumes "0 < panel_count n_arg"
  shows "simpson (\<lambda>x. c) a b (panel_count n_arg) = c * (b - a)"
  using simpson_poly [OF assms, of c 0 0 a b] by simp

lemma integrate_const:
  assumes "a < b" "1 \<le> n"
  shows "integrate (\<lambda>x. Fin c) (Fin a) (Fin b) (Some n) = Fin (c * (b - a))"
proof -
  have n: "0 < panel_count (Some n)" using assms(2) by (simp add: panel_count_def)
  show ?thesis
    by (simp add: integrate_Fin [OF assms(1) n, of _ "\<lambda>x. c"] simpson_const [OF n])
qed

section \<open>The profile and the constants on the reals\<close>

lemmas CAR_defs = CAR_length_def CAR_width_def CAR_noseHeight_def CAR_frontHeight_def
  CAR_rearHeight_def CAR_tailHeight_def CAR_frontAxle_def CAR_rearAxle_def
  CAR_rawWoodWeight_def CAR_wheelAxleWeight_def

lemma profileHeight_Fin: "profileHeight (Fin x) = Fin (profile x)"
  by (simp add: profileHeight_def profile_def CAR_defs Let_def)

lemma WOOD_DENSITY_Fin: "WOOD_DENSITY = Fin (3.42 / 15.3125)"
  by (simp add: WOOD_DENSITY_def STOCK_VOLUME_def CAR_defs)

lemma is_finite_iff: "is_finite x \<longleftrightarrow> x = Fin (real_of x)"
  by (cases x) (simp_all add: is_finite_def)

lemma profile_seg1: "0 \<le> x \<Longrightarrow> x \<le> 1.75 \<Longrightarrow> profile x = 0.05 + (0.2 / 1.75) * x"
  by (simp add: profile_def)

lemma profile_seg2: "1.75 \<le> x \<Longrightarrow> x \<le> 6 \<Longrightarrow> profile x = (0.25 - 1.75 * (0.25 / 4.25)) + (0.25 / 4.25) * x"
  by (simp add: profile_def field_simps)

lemma profile_seg3: "6 \<le> x \<Longrightarrow> x \<le> 7 \<Longrightarrow> profile x = 0.2 + 0.05 * x"
  by (simp add: profile_def field_simps)

lemma profile_bounds: "0.05 \<le> profile x" "profile x \<le> 0.55"
  by (simp_all add: profile_def field_simps)

section \<open>Sums over finite cavity lists\<close>

lemma is_finite_Fin [simp]: "is_finite (Fin x)"
  by (simp add: is_finite_def)

lemma is_finite_times: "is_finite x \<Longrightarrow> is_finite y \<Longrightarrow> is_finite (x * y)"
  by (cases x; cases y) (simp_all add: is_finite_def)

lemma real_of_times: "is_finite x \<Longrightarrow> is_finite y \<Longrightarrow> real_of (x * y) = real_of x * real_of y"
  by (cases x; cases y) (simp_all add: is_finite_def)

lemma foldl_plus_Fin:
  assumes "\<forall>c \<in> set cs. is_finite (f c)"
  shows "foldl (\<lambda>s c. s + f c) (Fin s0) cs = Fin (s0 + (\<Sum>c\<leftarrow>cs. real_of (f c)))"
  using assms
proof (induction cs arbitrary: s0)
  case Nil
  then show ?case by simp
next
  case (Cons c cs)
  then obtain r where c: "f c = Fin r" by (auto simp: is_finite_iff)
  have "foldl (\<lambda>s c. s + f c) (Fin s0) (c # cs)
      = foldl (\<lambda>s c. s + f c) (Fin (s0 + real_of (f c))) cs"
    by (simp add: c)
  also have "\<dots> = Fin (s0 + real_of (f c) + (\<Sum>c\<leftarrow>cs. real_of (f c)))"
    using Cons.prems by (intro Cons.IH) simp
  finally show ?case by (simp add: add.assoc)
qed

lemma fold_plus_Fin:
  assumes "\<forall>c \<in> set cs. is_finite (f c)"
  shows "fold (\<lambda>c s. s + f c) cs (Fin s0) = Fin (s0 + (\<Sum>c\<leftarrow>cs. real_of (f c)))"
  using foldl_plus_Fin [OF assms, of s0] by (simp add: foldl_conv_fold)

lemma fold_pair_split:
  "fold (\<lambda>c (r, p). (r + f c, p + g c)) cs (r0, p0)
     = (fold (\<lambda>c r. r + f c) cs r0, fold (\<lambda>c p. p + g c) cs p0)"
  by (induction cs arbitrary: r0 p0) simp_all

lemma sum_list_scale: "(\<Sum>c\<leftarrow>cs. f c * k) = (\<Sum>c\<leftarrow>cs. f c) * (k::real)"
  by (induction cs) (simp_all add: algebra_simps)

lemma finite_cavity_vol: "finite_cavity c \<Longrightarrow> cavVol c = Fin (real_of (cavVol c))"
  by (simp add: finite_cavity_def is_finite_iff)

lemma total_capacity_Fin:
  assumes "\<forall>c \<in> set cs. finite_cavity c"
  shows "total_capacity cs = Fin (11 * (\<Sum>c\<leftarrow>cs. real_of (cavVol c)))"
proof -
  have fin: "\<forall>c \<in> set cs. is_finite (cavVol c * PUTTY_DENSITY)"
    using assms by (auto simp: finite_cavity_def PUTTY_DENSITY_def intro!: is_finite_times)
  have r: "real_of (cavVol c * PUTTY_DENSITY) = real_of (cavVol c) * 11" if "c \<in> set cs" for c
    using assms that by (simp add: finite_cavity_def PUTTY_DENSITY_def real_of_times)
  have "(\<Sum>c\<leftarrow>cs. real_of (cavVol c * PUTTY_DENSITY)) = (\<Sum>c\<leftarrow>cs. real_of (cavVol c) * 11)"
    by (rule arg_cong [where f = sum_list]) (simp add: r)
  then show ?thesis
    unfolding total_capacity_def foldl_plus_Fin [OF fin] by (simp add: sum_list_scale)
qed

lemma wood_removed_Fin:
  assumes "\<forall>c \<in> set cs. finite_cavity c"
  shows "foldl (\<lambda>s c. s + woodRemoved c) (Fin 0) cs = Fin (\<Sum>c\<leftarrow>cs. real_of (woodRemoved c))"
  using foldl_plus_Fin [of cs woodRemoved 0] assms by (simp add: finite_cavity_def)

lemma solveForTargetWeight_unfold:
  "solveForTargetWeight b cs =
     (TARGET_WEIGHT - (b - foldl (\<lambda>s c. s + woodRemoved c) (Fin 0) cs) - CAR_wheelAxleWeight)
       / total_capacity cs"
  by (simp add: solveForTargetWeight_def total_capacity_def Let_def)

lemma solveForTargetWeight_Fin:
  assumes "\<forall>c \<in> set cs. finite_cavity c"
  shows "solveForTargetWeight (Fin b) cs =
     Fin (5 - (b - (\<Sum>c\<leftarrow>cs. real_of (woodRemoved c))) - 0.49)
       / Fin (11 * (\<Sum>c\<leftarrow>cs. real_of (cavVol c)))"
  unfolding solveForTargetWeight_unfold total_capacity_Fin [OF assms] wood_removed_Fin [OF assms]
  by (simp add: TARGET_WEIGHT_def CAR_defs)

lemma totalWeight_unfold:
  "totalWeight (computeCarWithCavity b cs (Some f)) =
     (b - fold (\<lambda>c r. r + woodRemoved c) cs (Fin 0))
       + fold (\<lambda>c p. p + cavVol c * PUTTY_DENSITY * f) cs (Fin 0) + CAR_wheelAxleWeight"
  by (simp add: computeCarWithCavity_def fold_pair_split Let_def)

lemma totalWeight_Fin:
  assumes "\<forall>c \<in> set cs. finite_cavity c"
  shows "totalWeight (computeCarWithCavity (Fin b) cs (Some (Fin f))) =
    Fin ((b - (\<Sum>c\<leftarrow>cs. real_of (woodRemoved c))) + 11 * f * (\<Sum>c\<leftarrow>cs. real_of (cavVol c)) + 0.49)"
proof -
  have fin: "\<forall>c \<in> set cs. is_finite (cavVol c * PUTTY_DENSITY * Fin f)"
    using assms by (auto simp: finite_cavity_def PUTTY_DENSITY_def intro!: is_finite_times)
  have r: "real_of (cavVol c * PUTTY_DENSITY * Fin f) = real_of (cavVol c) * (11 * f)"
    if "c \<in> set cs" for c
    using assms that by (simp add: finite_cavity_def PUTTY_DENSITY_def real_of_times is_finite_times)
  have "(\<Sum>c\<leftarrow>cs. real_of (cavVol c * PUTTY_DENSITY * Fin f)) = (\<Sum>c\<leftarrow>cs. real_of (cavVol c) * (11 * f))"
    by (rule arg_cong [where f = sum_list]) (simp add: r)
  then have p: "fold (\<lambda>c p. p + cavVol c * PUTTY_DENSITY * Fin f) cs (Fin 0)
      = Fin (11 * f * (\<Sum>c\<leftarrow>cs. real_of (cavVol c)))"
    unfolding fold_plus_Fin [OF fin] by (simp add: sum_list_scale)
  have w: "fold (\<lambda>c r. r + woodRemoved c) cs (Fin 0) = Fin (\<Sum>c\<leftarrow>cs. real_of (woodRemoved c))"
    using fold_plus_Fin [of cs woodRemoved 0] assms by (simp add: finite_cavity_def)
  show ?thesis unfolding totalWeight_unfold p w by (simp add: CAR_defs)
qed

section \<open>Cavity volumes in closed form\<close>

lemma integrate_is_finite:
  assumes "\<And>x. is_finite (fn (Fin x))"
  shows "is_finite (integrate fn (Fin a) (Fin b) None)"
proof (cases "a < b")
  case True
  have "integrate fn (Fin a) (Fin b) None = Fin (simpson (\<lambda>x. real_of (fn (Fin x))) a b (panel_count None))"
    using assms by (intro integrate_Fin [OF True]) (simp_all add: is_finite_iff [symmetric])
  then show ?thesis by simp
next
  case False
  then show ?thesis by (simp add: integrate_empty)
qed

lemma integrate_profile_affine:
  assumes ab: "a < b" and seg: "\<And>x. a \<le> x \<Longrightarrow> x \<le> b \<Longrightarrow> profile x = p + q * x"
  shows "integrate (\<lambda>x. profileHeight x * Fin w) (Fin a) (Fin b) None
           = Fin (w * (p * (b - a) + q * (b\<^sup>2 - a\<^sup>2) / 2))"
    and "integrate (\<lambda>x. x * profileHeight x * Fin w) (Fin a) (Fin b) None
           = Fin (w * (p * (b\<^sup>2 - a\<^sup>2) / 2 + q * (b ^ 3 - a ^ 3) / 3))"
proof -
  have n: "0 < panel_count None" by simp
  have "integrate (\<lambda>x. profileHeight x * Fin w) (Fin a) (Fin b) None
      = Fin (simpson (\<lambda>x. p * w + (q * w) * x + 0 * x\<^sup>2) a b (panel_count None))"
    by (rule integrate_Fin [OF ab n]) (simp add: profileHeight_Fin seg algebra_simps)
  also have "\<dots> = Fin (w * (p * (b - a) + q * (b\<^sup>2 - a\<^sup>2) / 2))"
    unfolding simpson_poly [OF n] by (simp add: algebra_simps)
  finally show "integrate (\<lambda>x. profileHeight x * Fin w) (Fin a) (Fin b) None
           = Fin (w * (p * (b - a) + q * (b\<^sup>2 - a\<^sup>2) / 2))" .
  have "integrate (\<lambda>x. x * profileHeight x * Fin w) (Fin a) (Fin b) None
      = Fin (simpson (\<lambda>x. 0 + (p * w) * x + (q * w) * x\<^sup>2) a b (panel_count None))"
    by (rule integrate_Fin [OF ab n]) (simp add: profileHeight_Fin seg algebra_simps power2_eq_square)
  also have "\<dots> = Fin (w * (p * (b\<^sup>2 - a\<^sup>2) / 2 + q * (b ^ 3 - a ^ 3) / 3))"
    unfolding simpson_poly [OF n] by (simp add: algebra_simps)
  finally show "integrate (\<lambda>x. x * profileHeight x * Fin w) (Fin a) (Fin b) None
           = Fin (w * (p * (b\<^sup>2 - a\<^sup>2) / 2 + q * (b ^ 3 - a ^ 3) / 3))" .
qed

lemma or_default_CAR_width [simp]: "or_default (Some CAR_width) CAR_width = Fin 1.75"
  by (simp add: or_default_def CAR_width_def)

lemma cavVol_throughCut:
  "cavVol (analyzeThroughCut xS xE w l)
     = integrate (\<lambda>x. profileHeight x * or_default w CAR_width) xS xE None"
  by (simp add: analyzeThroughCut_def Let_def)

lemma woodRemoved_throughCut:
  "woodRemoved (analyzeThroughCut xS xE w l) = cavVol (analyzeThroughCut xS xE w l) * WOOD_DENSITY"
  by (simp add: analyzeThroughCut_def Let_def)

lemma cavVol_seg2:
  assumes "1.75 \<le> a" "a < b" "b \<le> 6"
  shows "cavVol (analyzeThroughCut (Fin a) (Fin b) (Some CAR_width) l)
     = Fin (1.75 * ((0.25 - 1.75 * (0.25 / 4.25)) * (b - a) + (0.25 / 4.25) * (b\<^sup>2 - a\<^sup>2) / 2))"
  unfolding cavVol_throughCut or_default_CAR_width
  using assms by (intro integrate_profile_affine(1) profile_seg2) simp_all

lemma cavVol_seg3:
  assumes "6 \<le> a" "a < b" "b \<le> 7"
  shows "cavVol (analyzeThroughCut (Fin a) (Fin b) (Some CAR_width) l)
     = Fin (1.75 * (0.2 * (b - a) + 0.05 * (b\<^sup>2 - a\<^sup>2) / 2))"
  unfolding cavVol_throughCut or_default_CAR_width
  using assms by (intro integrate_profile_affine(1) profile_seg3) simp_all

lemma degenerate_cavity:
  "cavVol (analyzeThroughCut (Fin 3) (Fin 3) None None) = Fin 0"
  "woodRemoved (analyzeThroughCut (Fin 3) (Fin 3) None None) = Fin 0"
  by (simp_all add: analyzeThroughCut_def Let_def integrate_empty WOOD_DENSITY_Fin)

lemma finite_throughCut: "finite_cavity (analyzeThroughCut (Fin a) (Fin b) (Some CAR_width) l)"
  unfolding finite_cavity_def woodRemoved_throughCut cavVol_throughCut or_default_CAR_width
  by (intro conjI is_finite_times integrate_is_finite)
     (simp_all add: profileHeight_Fin WOOD_DENSITY_Fin)

section \<open>The fill-fraction filters of the grid searches\<close>

lemma designF_single_Infeasible_iff:
  "designF_single b xS xE = Infeasible \<longleftrightarrow>
      solveForTargetWeight b [analyzeThroughCut xS xE (Some CAR_width) None] < Fin 0
      \<or> solveForTargetWeight b [analyzeThroughCut xS xE (Some CAR_width) None] > Fin 1"
  by (simp add: designF_single_def Let_def)

lemma designF_two_Infeasible_iff:
  "designF_two b rS rE fS fE = Infeasible \<longleftrightarrow>
      solveForTargetWeight b [analyzeThroughCut fS fE (Some CAR_width) None,
                              analyzeThroughCut rS rE (Some CAR_width) None] < Fin 0.01
      \<or> solveForTargetWeight b [analyzeThroughCut fS fE (Some CAR_width) None,
                                analyzeThroughCut rS rE (Some CAR_width) None] > Fin 1"
  by (simp add: designF_two_def Let_def)

section \<open>Monotonicity of the Simpson sum\<close>




lemma Math_min_Fin [simp]: "Math_min (Fin a) (Fin b) = Fin (min a b)"
  by (simp add: Math_min_def min_def)



section \<open>The 2x2 system of a finite configuration\<close>

lemma cavCogX_throughCut:
  "cavCogX (analyzeThroughCut xS xE w l)
     = (if cavVol (analyzeThroughCut xS xE w l) > Fin 0
        then integrate (\<lambda>x. x * profileHeight x * or_default w CAR_width) xS xE None
               / cavVol (analyzeThroughCut xS xE w l)
        else Fin 0)"
  by (simp add: analyzeThroughCut_def Let_def)

lemma is_finite_cavCogX:
  "is_finite (cavCogX (analyzeThroughCut (Fin a) (Fin b) (Some CAR_width) l))"
proof -
  have m: "is_finite (integrate (\<lambda>x. x * profileHeight x * Fin 1.75) (Fin a) (Fin b) None)"
    by (intro integrate_is_finite) (simp add: profileHeight_Fin)
  have v: "is_finite (cavVol (analyzeThroughCut (Fin a) (Fin b) (Some CAR_width) l))"
    using finite_throughCut [of a b l] by (simp add: finite_cavity_def)
  obtain mr where mr: "integrate (\<lambda>x. x * profileHeight x * Fin 1.75) (Fin a) (Fin b) None = Fin mr"
    using m by (auto simp: is_finite_iff)
  obtain vr where vr: "cavVol (analyzeThroughCut (Fin a) (Fin b) (Some CAR_width) l) = Fin vr"
    using v by (auto simp: is_finite_iff)
  show ?thesis
    unfolding cavCogX_throughCut or_default_CAR_width mr vr by simp
qed

lemma is_finite_woodMoment:
  "is_finite (integrate (\<lambda>x. x * profileHeight x * CAR_width * WOOD_DENSITY) (Fin a) (Fin b) None)"
  by (intro integrate_is_finite) (simp add: profileHeight_Fin CAR_width_def WOOD_DENSITY_Fin)

text \<open>The coefficients of the system of a finite configuration are finite numbers.\<close>

lemma designG_system_Fin:
  assumes "finite_config cfg"
  shows "\<exists>v1 c1 v2 c2 ww rm.
     P1 (designG_system (Fin b) cfg) = Fin (v1 * 11)
   \<and> P2 (designG_system (Fin b) cfg) = Fin (v2 * 11)
   \<and> M1 (designG_system (Fin b) cfg) = Fin (c1 * (v1 * 11))
   \<and> M2 (designG_system (Fin b) cfg) = Fin (c2 * (v2 * 11))
   \<and> cavCogX (g_fCav (designG_system (Fin b) cfg)) = Fin c1
   \<and> cavCogX (g_rCav (designG_system (Fin b) cfg)) = Fin c2
   \<and> g_woodWeight (designG_system (Fin b) cfg) = Fin ww
   \<and> g_wheelWeight (designG_system (Fin b) cfg) = Fin 0.49
   \<and> RHS1 (designG_system (Fin b) cfg) = Fin (5 - ww - 0.49)
   \<and> g_remainingWoodMoment (designG_system (Fin b) cfg) = Fin rm
   \<and> g_wheelMoment (designG_system (Fin b) cfg) = Fin (0.49 / 2 * 1.75 + 0.49 / 2 * 6)
   \<and> RHS2 (designG_system (Fin b) cfg) = Fin (5 * 5 - rm - (0.49 / 2 * 1.75 + 0.49 / 2 * 6))"
proof -
  obtain fs fe rs re where cfg: "fStart cfg = Fin fs" "fEnd cfg = Fin fe"
      "rStart cfg = Fin rs" "rEnd cfg = Fin re"
    using assms by (auto simp: finite_config_def is_finite_iff)
  define F where "F = analyzeThroughCut (Fin fs) (Fin fe) (Some CAR_width) None"
  define R where "R = analyzeThroughCut (Fin rs) (Fin re) (Some CAR_width) None"
  obtain v1 where v1: "cavVol F = Fin v1"
    using finite_throughCut [of fs fe None] by (auto simp: F_def finite_cavity_def is_finite_iff)
  obtain v2 where v2: "cavVol R = Fin v2"
    using finite_throughCut [of rs re None] by (auto simp: R_def finite_cavity_def is_finite_iff)
  obtain c1 where c1: "cavCogX F = Fin c1"
    using is_finite_cavCogX [of fs fe None] by (auto simp: F_def is_finite_iff)
  obtain c2 where c2: "cavCogX R = Fin c2"
    using is_finite_cavCogX [of rs re None] by (auto simp: R_def is_finite_iff)
  have w1: "woodRemoved F = Fin (v1 * (3.42 / 15.3125))"
    unfolding F_def woodRemoved_throughCut unfolding F_def [symmetric] v1 WOOD_DENSITY_Fin by simp
  have w2: "woodRemoved R = Fin (v2 * (3.42 / 15.3125))"
    unfolding R_def woodRemoved_throughCut unfolding R_def [symmetric] v2 WOOD_DENSITY_Fin by simp
  obtain bm where bm:
    "integrate (\<lambda>x. x * profileHeight x * CAR_width * WOOD_DENSITY) (Fin 0) CAR_length None = Fin bm"
    using is_finite_woodMoment [of 0 7] by (auto simp: is_finite_iff CAR_length_def)
  obtain fm where fm:
    "integrate (\<lambda>x. x * profileHeight x * CAR_width * WOOD_DENSITY) (Fin fs) (Fin fe) None = Fin fm"
    using is_finite_woodMoment [of fs fe] by (auto simp: is_finite_iff)
  obtain rm where rm:
    "integrate (\<lambda>x. x * profileHeight x * CAR_width * WOOD_DENSITY) (Fin rs) (Fin re) None = Fin rm"
    using is_finite_woodMoment [of rs re] by (auto simp: is_finite_iff)
  show ?thesis
    apply (rule exI [of _ v1], rule exI [of _ c1], rule exI [of _ v2], rule exI [of _ c2])
    apply (rule exI [of _ "b - v1 * (3.42 / 15.3125) - v2 * (3.42 / 15.3125)"])
    apply (rule exI [of _ "bm - fm - rm"])
    apply (simp add: designG_system_def Let_def cfg F_def [symmetric] R_def [symmetric]
        v1 v2 c1 c2 w1 w2 bm fm rm PUTTY_DENSITY_def TARGET_WEIGHT_def TARGET_COG_def
        CAR_wheelAxleWeight_def CAR_frontAxle_def CAR_rearAxle_def)
    done
qed

lemma cavCogX_affine:
  assumes ab: "a < b" and seg: "\<And>x. a \<le> x \<Longrightarrow> x \<le> b \<Longrightarrow> profile x = p + q * x"
    and pos: "0 < 1.75 * (p * (b - a) + q * (b\<^sup>2 - a\<^sup>2) / 2)"
  shows "cavCogX (analyzeThroughCut (Fin a) (Fin b) (Some CAR_width) l)
     = Fin (1.75 * (p * (b\<^sup>2 - a\<^sup>2) / 2 + q * (b ^ 3 - a ^ 3) / 3)
            / (1.75 * (p * (b - a) + q * (b\<^sup>2 - a\<^sup>2) / 2)))"
proof -
  have v: "cavVol (analyzeThroughCut (Fin a) (Fin b) (Some CAR_width) l)
      = Fin (1.75 * (p * (b - a) + q * (b\<^sup>2 - a\<^sup>2) / 2))"
    unfolding cavVol_throughCut or_default_CAR_width
    by (rule integrate_profile_affine(1) [OF ab seg])
  have m: "integrate (\<lambda>x. x * profileHeight x * Fin 1.75) (Fin a) (Fin b) None
      = Fin (1.75 * (p * (b\<^sup>2 - a\<^sup>2) / 2 + q * (b ^ 3 - a ^ 3) / 3))"
    by (rule integrate_profile_affine(2) [OF ab seg])
  have ne: "1.75 * (p * (b - a) + q * (b\<^sup>2 - a\<^sup>2) / 2) \<noteq> 0" using pos by simp
  show ?thesis
    unfolding cavCogX_throughCut v or_default_CAR_width m
    using pos ne by (simp only: less_jsnum.simps divide_jsnum.simps if_True if_False)
qed

lemma designG_det_unfold:
  "designG_det (designG_system b cfg) =
     cavVol (analyzeThroughCut (fStart cfg) (fEnd cfg) (Some CAR_width) None) * PUTTY_DENSITY
       * (cavCogX (analyzeThroughCut (rStart cfg) (rEnd cfg) (Some CAR_width) None)
            * (cavVol (analyzeThroughCut (rStart cfg) (rEnd cfg) (Some CAR_width) None) * PUTTY_DENSITY))
     - cavVol (analyzeThroughCut (rStart cfg) (rEnd cfg) (Some CAR_width) None) * PUTTY_DENSITY
       * (cavCogX (analyzeThroughCut (fStart cfg) (fEnd cfg) (Some CAR_width) None)
            * (cavVol (analyzeThroughCut (fStart cfg) (fEnd cfg) (Some CAR_width) None) * PUTTY_DENSITY))"
  by (simp add: designG_det_def designG_system_def Let_def)

section \<open>The bisection on a linear piece of the profile\<close>

lemma volume_affine:
  assumes seg: "\<And>x. sa \<le> x \<Longrightarrow> x \<le> sb \<Longrightarrow> profile x = p + q * x"
    and "sa \<le> xS" "xS < e" "e \<le> sb"
  shows "integrate (\<lambda>x. profileHeight x * CAR_width) (Fin xS) (Fin e) None
           = Fin (span_volume p q xS e)"
  unfolding CAR_width_def span_volume_def
  using assms(2-4) by (intro integrate_profile_affine(1) seg) simp_all

lemma span_volume_diff:
  "span_volume p q xS e2 - span_volume p q xS e1
     = 1.75 * (e2 - e1) * (p + q * ((e1 + e2) / 2))"
  by (simp add: span_volume_def power2_eq_square field_simps)

lemma span_volume_mono:
  assumes seg: "\<And>x. sa \<le> x \<Longrightarrow> x \<le> sb \<Longrightarrow> profile x = p + q * x"
    and "sa \<le> e1" "e1 \<le> e2" "e2 \<le> sb"
  shows "span_volume p q xS e1 \<le> span_volume p q xS e2"
    and "span_volume p q xS e2 - span_volume p q xS e1 \<le> e2 - e1"
proof -
  have m: "profile ((e1 + e2) / 2) = p + q * ((e1 + e2) / 2)"
    using assms(2-4) by (intro seg) simp_all
  have lo: "0 \<le> p + q * ((e1 + e2) / 2)"
    using profile_bounds(1) [of "(e1 + e2) / 2"] unfolding m by simp
  have hi: "1.75 * (p + q * ((e1 + e2) / 2)) \<le> 1"
    using profile_bounds(2) [of "(e1 + e2) / 2"] unfolding m by simp
  have d: "0 \<le> e2 - e1" using assms(3) by simp
  have "0 \<le> 1.75 * (e2 - e1) * (p + q * ((e1 + e2) / 2))"
    using d lo by (intro mult_nonneg_nonneg) simp_all
  then show "span_volume p q xS e1 \<le> span_volume p q xS e2"
    using span_volume_diff [of p q xS e2 e1] by linarith
  have "(e2 - e1) * (1.75 * (p + q * ((e1 + e2) / 2))) \<le> (e2 - e1) * 1"
    using d hi by (intro mult_left_mono) simp_all
  moreover have "1.75 * (e2 - e1) * (p + q * ((e1 + e2) / 2))
      = (e2 - e1) * (1.75 * (p + q * ((e1 + e2) / 2)))"
    by (simp only: ac_simps)
  ultimately show "span_volume p q xS e2 - span_volume p q xS e1 \<le> e2 - e1"
    unfolding span_volume_diff by simp
qed

lemma bisect_step:
  "iter < 100 \<Longrightarrow>
   designH_bisect xS neededVol iter lo hi =
     (if integrate (\<lambda>x. profileHeight x * CAR_width) xS ((lo + hi) / Fin 2) None < neededVol
      then designH_bisect xS neededVol (iter + 1) ((lo + hi) / Fin 2) hi
      else designH_bisect xS neededVol (iter + 1) lo ((lo + hi) / Fin 2))"
  by (subst designH_bisect.simps) (simp add: Let_def)

lemma bisect_done: "\<not> iter < 100 \<Longrightarrow> designH_bisect xS neededVol iter lo hi = (lo, hi)"
  by (subst designH_bisect.simps) simp

lemma bisect_invariant:
  assumes seg: "\<And>x. sa \<le> x \<Longrightarrow> x \<le> sb \<Longrightarrow> profile x = p + q * x"
    and xS: "sa \<le> xS"
  shows "xS < l \<Longrightarrow> l \<le> h \<Longrightarrow> h \<le> sb \<Longrightarrow> iter \<le> 100 \<Longrightarrow>
    \<exists>l' h'. designH_bisect (Fin xS) (Fin nv) iter (Fin l) (Fin h) = (Fin l', Fin h')
      \<and> l \<le> l' \<and> l' \<le> h' \<and> h' \<le> h \<and> h' - l' = (h - l) / 2 ^ (100 - iter)
      \<and> (span_volume p q xS l \<le> nv \<longrightarrow> span_volume p q xS l' \<le> nv)
      \<and> (nv \<le> span_volume p q xS h \<longrightarrow> nv \<le> span_volume p q xS h')"
proof (induction "100 - iter" arbitrary: iter l h)
  case 0
  then have "\<not> iter < 100" by simp
  then have "designH_bisect (Fin xS) (Fin nv) iter (Fin l) (Fin h) = (Fin l, Fin h)"
    by (rule bisect_done)
  moreover have "100 - iter = 0" using 0 by simp
  ultimately show ?case using 0 by simp
next
  case (Suc k)
  then have it: "iter < 100" by simp
  define mid where "mid = (l + h) / 2"
  have mid: "l \<le> mid" "mid \<le> h" "xS < mid" "mid \<le> sb"
    using Suc.prems by (simp_all add: mid_def)
  have midF: "(Fin l + Fin h) / Fin 2 = Fin mid" by (simp add: mid_def)
  have vol: "integrate (\<lambda>x. profileHeight x * CAR_width) (Fin xS) (Fin mid) None
      = Fin (span_volume p q xS mid)"
    by (rule volume_affine [where sa = sa and sb = sb, OF seg xS mid(3) mid(4)])
  have k: "k = 100 - (iter + 1)" using Suc.hyps(2) by simp
  have pw: "(2::real) ^ (100 - iter) = 2 * 2 ^ (100 - (iter + 1))"
    using it by (simp add: Suc_diff_Suc flip: power_Suc)
  have step: "designH_bisect (Fin xS) (Fin nv) iter (Fin l) (Fin h) =
     (if span_volume p q xS mid < nv
      then designH_bisect (Fin xS) (Fin nv) (iter + 1) (Fin mid) (Fin h)
      else designH_bisect (Fin xS) (Fin nv) (iter + 1) (Fin l) (Fin mid))"
    unfolding bisect_step [OF it] midF vol by simp
  show ?case
  proof (cases "span_volume p q xS mid < nv")
    case True
    obtain l' h' where r: "designH_bisect (Fin xS) (Fin nv) (iter + 1) (Fin mid) (Fin h) = (Fin l', Fin h')"
        "mid \<le> l'" "l' \<le> h'" "h' \<le> h" "h' - l' = (h - mid) / 2 ^ (100 - (iter + 1))"
        "span_volume p q xS mid \<le> nv \<longrightarrow> span_volume p q xS l' \<le> nv"
        "nv \<le> span_volume p q xS h \<longrightarrow> nv \<le> span_volume p q xS h'"
      using Suc.hyps(1) [OF k mid(3) mid(2) Suc.prems(3)] it by auto
    have w: "h' - l' = (h - l) / 2 ^ (100 - iter)"
      unfolding r(5) pw by (simp add: mid_def field_simps)
    show ?thesis
      unfolding step using True r mid w by (intro exI [of _ l'] exI [of _ h']) simp
  next
    case False
    obtain l' h' where r: "designH_bisect (Fin xS) (Fin nv) (iter + 1) (Fin l) (Fin mid) = (Fin l', Fin h')"
        "l \<le> l'" "l' \<le> h'" "h' \<le> mid" "h' - l' = (mid - l) / 2 ^ (100 - (iter + 1))"
        "span_volume p q xS l \<le> nv \<longrightarrow> span_volume p q xS l' \<le> nv"
        "nv \<le> span_volume p q xS mid \<longrightarrow> nv \<le> span_volume p q xS h'"
      using Suc.hyps(1) [OF k Suc.prems(1) mid(1) mid(4)] it by auto
    have w: "h' - l' = (h - l) / 2 ^ (100 - iter)"
      unfolding r(5) pw by (simp add: mid_def field_simps)
    show ?thesis
      unfolding step using False r mid w by (intro exI [of _ l'] exI [of _ h']) simp
  qed
qed

lemma endBoundary_segment:
  assumes seg: "\<And>x. sa \<le> x \<Longrightarrow> x \<le> sb \<Longrightarrow> profile x = p + q * x"
    and xS: "sa \<le> xS" and lo: "xS + 0.001 \<le> re" and re: "re \<le> sb"
    and upper: "nv \<le> span_volume p q xS re"
  shows "\<exists>l' h'. designH_endBoundary (Fin nv) (Fin re) (Fin xS) = Some (Fin ((l' + h') / 2))
      \<and> xS + 0.001 \<le> l' \<and> l' \<le> h' \<and> h' \<le> re
      \<and> h' - l' = (re - (xS + 0.001)) / 2 ^ 100
      \<and> (span_volume p q xS (xS + 0.001) \<le> nv \<longrightarrow> span_volume p q xS l' \<le> nv)
      \<and> nv \<le> span_volume p q xS h'"
proof -
  have lt: "xS < re" using lo by simp
  have maxVol: "integrate (\<lambda>x. profileHeight x * CAR_width) (Fin xS) (Fin re) None
      = Fin (span_volume p q xS re)"
    by (rule volume_affine [where sa = sa and sb = sb, OF seg xS lt re])
  have l0: "xS < xS + 0.001" by simp
  obtain l' h' where r:
      "designH_bisect (Fin xS) (Fin nv) 0 (Fin (xS + 0.001)) (Fin re) = (Fin l', Fin h')"
      "xS + 0.001 \<le> l'" "l' \<le> h'" "h' \<le> re" "h' - l' = (re - (xS + 0.001)) / 2 ^ (100 - 0)"
      "span_volume p q xS (xS + 0.001) \<le> nv \<longrightarrow> span_volume p q xS l' \<le> nv"
      "nv \<le> span_volume p q xS re \<longrightarrow> nv \<le> span_volume p q xS h'"
    using bisect_invariant [where sa = sa and sb = sb and iter = 0, OF seg xS l0 lo re]
    by blast
  have lo_eq: "Fin xS + Fin 0.001 = Fin (xS + 0.001)" by simp
  have xE: "(Fin l' + Fin h') / Fin 2 = Fin ((l' + h') / 2)" by simp
  have le: "\<not> re < (l' + h') / 2" using r(3,4) by simp
  have nlt: "\<not> span_volume p q xS re < nv" using upper by simp
  have "designH_endBoundary (Fin nv) (Fin re) (Fin xS) = Some (Fin ((l' + h') / 2))"
    unfolding designH_endBoundary_def Let_def maxVol lo_eq r(1)
    using le nlt by (simp only: less_jsnum.simps xE if_False split_conv)
  then show ?thesis using r upper by (intro exI [of _ l'] exI [of _ h']) simp
qed

lemma back_solve_segment:
  assumes seg: "\<And>x. sa \<le> x \<Longrightarrow> x \<le> sb \<Longrightarrow> profile x = p + q * x"
    and xS: "sa \<le> xS" and lo: "xS + 0.001 \<le> re" and re: "re \<le> sb"
    and span: "re - xS \<le> 7"
    and lower: "integrate (\<lambda>x. profileHeight x * CAR_width) (Fin xS) (Fin xS + Fin 0.001) None
                  \<le> Fin nv"
    and upper: "Fin nv \<le> integrate (\<lambda>x. profileHeight x * CAR_width) (Fin xS) (Fin re) None"
  shows "\<exists>xE. designH_endBoundary (Fin nv) (Fin re) (Fin xS) = Some xE
      \<and> \<bar>integrate (\<lambda>x. profileHeight x * CAR_width) (Fin xS) xE None - Fin nv\<bar>
          \<le> Fin (1 / 10 ^ 4)"
proof -
  have lt: "xS < re" using lo by simp
  have l0: "xS < xS + 0.001" by simp
  have lo_sb: "xS + 0.001 \<le> sb" using lo re by simp
  have "Fin nv \<le> Fin (span_volume p q xS re)"
    using upper by (simp only: volume_affine [where sa = sa and sb = sb, OF seg xS lt re])
  then have up: "nv \<le> span_volume p q xS re" by simp
  have lo_eq: "Fin xS + Fin 0.001 = Fin (xS + 0.001)" by simp
  have "Fin (span_volume p q xS (xS + 0.001)) \<le> Fin nv"
    using lower
    by (simp only: lo_eq volume_affine [where sa = sa and sb = sb, OF seg xS l0 lo_sb])
  then have low: "span_volume p q xS (xS + 0.001) \<le> nv" by simp
  obtain l' h' where r:
      "designH_endBoundary (Fin nv) (Fin re) (Fin xS) = Some (Fin ((l' + h') / 2))"
      "xS + 0.001 \<le> l'" "l' \<le> h'" "h' \<le> re"
      "h' - l' = (re - (xS + 0.001)) / 2 ^ 100"
      "span_volume p q xS l' \<le> nv" "nv \<le> span_volume p q xS h'"
    using endBoundary_segment [where sa = sa and sb = sb, OF seg xS lo re up] low by blast
  define xE where "xE = (l' + h') / 2"
  have xE: "l' \<le> xE" "xE \<le> h'" "xS < xE" "xE \<le> sb" "sa \<le> l'" "sa \<le> xE" "h' \<le> sb"
    using r(2,3,4) xS re by (simp_all add: xE_def)
  have vol: "integrate (\<lambda>x. profileHeight x * CAR_width) (Fin xS) (Fin xE) None
      = Fin (span_volume p q xS xE)"
    by (rule volume_affine [where sa = sa and sb = sb, OF seg xS xE(3) xE(4)])
  have m1: "span_volume p q xS l' \<le> span_volume p q xS xE"
    by (rule span_volume_mono(1) [where sa = sa and sb = sb, OF seg xE(5) xE(1) xE(4)])
  have m2: "span_volume p q xS xE \<le> span_volume p q xS h'"
    by (rule span_volume_mono(1) [where sa = sa and sb = sb, OF seg xE(6) xE(2) xE(7)])
  have w: "span_volume p q xS h' - span_volume p q xS l' \<le> h' - l'"
    by (rule span_volume_mono(2) [where sa = sa and sb = sb, OF seg xE(5) r(3) xE(7)])
  have "h' - l' \<le> 7 / 2 ^ 100"
    unfolding r(5) using span by (intro divide_right_mono) simp_all
  also have "(7::real) / 2 ^ 100 \<le> 1 / 10 ^ 4" by simp
  finally have width: "h' - l' \<le> 1 / 10 ^ 4" .
  have "\<bar>span_volume p q xS xE - nv\<bar> \<le> 1 / 10 ^ 4"
    using m1 m2 w width r(6,7) by linarith
  then show ?thesis
    using r(1) unfolding xE_def [symmetric]
    by (intro exI [of _ "Fin xE"]) (simp add: vol)
qed

section \<open>Rounding errors in binary64\<close>

lemma round_half_even_close: "\<bar>of_int (round_half_even m) - m\<bar> \<le> 1 / 2"
  unfolding round_half_even_def Let_def by (auto; linarith)

lemma round_real_abs_err:
  "\<bar>round_real x - x\<bar> \<le> 2 powr of_int (quantum_exp x) / 2"
proof (cases "x = 0")
  case True
  then show ?thesis by (simp add: round_real_def)
next
  case False
  define q :: real where "q = 2 powr of_int (quantum_exp x)"
  have q: "0 < q" by (simp add: q_def)
  have "round_real x - x = q * (of_int (round_half_even (x / q)) - x / q)"
    using False q by (simp add: round_real_def q_def field_simps)
  then have "\<bar>round_real x - x\<bar> = q * \<bar>of_int (round_half_even (x / q)) - x / q\<bar>"
    using q by (simp add: abs_mult)
  also have "\<dots> \<le> q * (1 / 2)"
    using q round_half_even_close [of "x / q"] by (intro mult_left_mono) simp_all
  finally show ?thesis by (simp add: q_def)
qed

lemma quantum_normal:
  assumes "2 powr (- 1022) \<le> \<bar>x\<bar>"
  shows "2 powr of_int (quantum_exp x) \<le> \<bar>x\<bar> / 2 ^ 52"
proof -
  have pos: "0 < \<bar>x\<bar>" using assms by (smt (verit) powr_gt_zero)
  define e where "e = \<lfloor>log 2 \<bar>x\<bar>\<rfloor>"
  have "2 powr of_int e \<le> \<bar>x\<bar>"
    using floor_log_eq_powr_iff [of "\<bar>x\<bar>" 2 e] pos by (simp add: e_def)
  moreover have "- 1022 \<le> e"
  proof -
    have "- 1022 \<le> log 2 \<bar>x\<bar>" using assms pos by (simp add: le_log_iff)
    then show ?thesis unfolding e_def by (simp add: le_floor_iff)
  qed
  then have "quantum_exp x = e - 52" by (simp add: quantum_exp_def e_def)
  moreover have "(2::real) powr of_int (e - 52) = 2 powr of_int e / 2 ^ 52"
    by (simp add: powr_diff)
  ultimately show ?thesis by (simp add: divide_right_mono)
qed

lemma round_real_rel_err:
  assumes "2 powr (- 1022) \<le> \<bar>x\<bar>"
  shows "\<bar>round_real x - x\<bar> \<le> \<bar>x\<bar> / 2 ^ 53"
  using round_real_abs_err [of x] quantum_normal [OF assms] by simp

lemma round_real_eval:
  assumes "2 powr of_int e \<le> \<bar>x\<bar>" and "\<bar>x\<bar> < 2 powr (of_int e + 1)" and "- 1022 \<le> e"
    and "round_half_even (x / 2 powr of_int (e - 52)) = k"
  shows "round_real x = of_int k * 2 powr of_int (e - 52)"
proof -
  have pos: "0 < \<bar>x\<bar>" using assms(1) by (smt (verit) powr_gt_zero)
  have "\<lfloor>log 2 \<bar>x\<bar>\<rfloor> = e"
    using floor_log_eq_powr_iff [of "\<bar>x\<bar>" 2 e] pos assms(1,2) by simp
  then have "quantum_exp x = e - 52" using assms(3) by (simp add: quantum_exp_def)
  then show ?thesis using pos assms(4) by (simp add: round_real_def)
qed

lemma powr_quantum: "(2::real) powr of_int (- int m) = 1 / 2 ^ m"
  by (simp add: powr_minus powr_realpow inverse_eq_divide)

lemma round_real_eval_frac:
  assumes "2 ^ 52 \<le> \<bar>x\<bar> * 2 ^ m" and "\<bar>x\<bar> * 2 ^ m < 2 ^ 53" and "m \<le> 1074"
    and "round_half_even (x * 2 ^ m) = k"
  shows "round_real x = of_int k / 2 ^ m"
proof -
  have e: "(2::real) powr of_int (52 - int m) = 2 ^ 52 / 2 ^ m"
    "(2::real) powr (of_int (52 - int m) + 1) = 2 ^ 53 / 2 ^ m"
    by (simp_all add: powr_diff powr_realpow powr_add)
  have q: "52 - int m - 52 = - int m" by simp
  have "round_real x = of_int k * 2 powr of_int (52 - int m - 52)"
  proof (rule round_real_eval)
    show "2 powr of_int (52 - int m) \<le> \<bar>x\<bar>"
      unfolding e using assms(1) by (simp add: field_simps)
    show "\<bar>x\<bar> < 2 powr (of_int (52 - int m) + 1)"
      unfolding e using assms(2) by (simp add: field_simps)
    show "- 1022 \<le> 52 - int m" using assms(3) by simp
    show "round_half_even (x / 2 powr of_int (52 - int m - 52)) = k"
      unfolding q powr_quantum using assms(4) by simp
  qed
  then show ?thesis unfolding q powr_quantum by simp
qed

lemma eps64_bounds: "0 < eps64" "eps64 < 1" "0 < 1 - eps64" "1 - eps64 < 1"
  by (simp_all add: eps64_def)

lemma near_pos: "near k t \<Longrightarrow> 0 < t"
  unfolding near_def using eps64_bounds(3) by (smt (verit) zero_less_power)

lemma near_0: "near 0 1"
  by (simp add: near_def)

lemma near_mono:
  assumes "near j t" and "j \<le> k"
  shows "near k t"
proof -
  have le: "(1 - eps64) ^ k \<le> (1 - eps64) ^ j"
    using assms(2) eps64_bounds by (intro power_decreasing) simp_all
  have t: "0 < t" using assms(1) by (rule near_pos)
  have "t * (1 - eps64) ^ k \<le> t * (1 - eps64) ^ j"
    using le t by (intro mult_left_mono) simp_all
  then show ?thesis using assms(1) le unfolding near_def by linarith
qed

lemma near_mult:
  assumes "near j s" and "near k t"
  shows "near (j + k) (s * t)"
proof -
  define L where "L = 1 - eps64"
  have L: "0 < L ^ j" "0 < L ^ k" using eps64_bounds by (simp_all add: L_def)
  have s: "L ^ j \<le> s" "s * L ^ j \<le> 1" and t: "L ^ k \<le> t" "t * L ^ k \<le> 1"
    using assms by (simp_all add: near_def L_def)
  have sp: "0 < s" "0 < t" using assms near_pos by blast+
  have "L ^ j * L ^ k \<le> s * t"
    using s(1) t(1) L by (intro mult_mono) simp_all
  moreover have "(s * L ^ j) * (t * L ^ k) \<le> 1 * 1"
    using s(2) t(2) L sp by (intro mult_mono) simp_all
  ultimately show ?thesis
    by (simp add: near_def L_def [symmetric] power_add mult_ac)
qed

lemma near_inverse:
  assumes "near k t"
  shows "near k (1 / t)"
proof -
  define L where "L = 1 - eps64"
  have L: "0 < L ^ k" using eps64_bounds by (simp add: L_def)
  have t: "L ^ k \<le> t" "t * L ^ k \<le> 1" using assms by (simp_all add: near_def L_def)
  have tp: "0 < t" using assms by (rule near_pos)
  have "L ^ k \<le> 1 / t" using t(2) tp by (simp add: field_simps)
  moreover have "1 / t * L ^ k \<le> 1" using t(1) tp by (simp add: field_simps)
  ultimately show ?thesis by (simp add: near_def L_def [symmetric])
qed

lemma near_divide:
  assumes "near j s" and "near k t"
  shows "near (j + k) (s / t)"
  using near_mult [OF assms(1) near_inverse [OF assms(2)]] by simp

lemma near_convex:
  assumes "near k s" and "near k t" and "0 \<le> p" and "0 \<le> q" and "0 < p + q"
  shows "near k ((p * s + q * t) / (p + q))"
proof -
  define L where "L = (1 - eps64) ^ k"
  have L: "0 < L" using eps64_bounds by (simp add: L_def)
  have s: "L \<le> s" "s * L \<le> 1" and t: "L \<le> t" "t * L \<le> 1"
    using assms(1,2) by (simp_all add: near_def L_def)
  have "p * L \<le> p * s" "q * L \<le> q * t"
    using s(1) t(1) assms(3,4) by (simp_all add: mult_left_mono)
  then have lo: "L * (p + q) \<le> p * s + q * t" by (simp add: algebra_simps)
  have "p * (s * L) \<le> p * 1" "q * (t * L) \<le> q * 1"
    using s(2) t(2) assms(3,4) by (intro mult_left_mono; simp)+
  then have hi: "(p * s + q * t) * L \<le> p + q" by (simp add: algebra_simps)
  show ?thesis
    unfolding near_def L_def [symmetric]
    using lo hi assms(5) by (simp add: field_simps)
qed

lemma near_bound:
  assumes "near k t" and "real k \<le> 2 ^ 52"
  shows "\<bar>t - 1\<bar> \<le> real k / 2 ^ 52"
proof -
  define L where "L = (1 - eps64) ^ k"
  have t: "L \<le> t" "t * L \<le> 1" using assms(1) by (simp_all add: near_def L_def)
  have "1 + real k * (- eps64) \<le> (1 + (- eps64)) ^ k"
    using eps64_bounds by (intro Bernoulli_inequality) simp
  then have lo: "1 - real k * eps64 \<le> L" by (simp add: L_def)
  have half: "real k * eps64 \<le> 1 / 2" using assms(2) by (simp add: eps64_def)
  have tp: "0 < t" using assms(1) by (rule near_pos)
  have "t * (1 - real k * eps64) \<le> t * L"
    using lo tp by (intro mult_left_mono) simp_all
  then have "t * (1 - real k * eps64) \<le> 1" using t(2) by linarith
  then have "t \<le> 1 / (1 - real k * eps64)"
    using half by (simp add: field_simps)
  also have "\<dots> \<le> 1 + 2 * (real k * eps64)"
  proof -
    define y where "y = real k * eps64"
    have y: "0 \<le> y" "y \<le> 1 / 2" using eps64_bounds half by (simp_all add: y_def)
    have "0 \<le> y * (1 - 2 * y)" using y by (intro mult_nonneg_nonneg) simp_all
    moreover have "(1 - y) * (1 + 2 * y) = 1 + y * (1 - 2 * y)" by (simp add: algebra_simps)
    ultimately have "1 \<le> (1 - y) * (1 + 2 * y)" by simp
    then have "1 / (1 - y) \<le> 1 + 2 * y" using y by (simp add: field_simps)
    then show ?thesis by (simp add: y_def)
  qed
  finally have hi: "t \<le> 1 + 2 * (real k * eps64)" .
  have e: "2 * (real k * eps64) = real k / 2 ^ 52" by (simp add: eps64_def)
  have "0 \<le> real k * eps64" using eps64_bounds by simp
  then have "t - 1 \<le> real k / 2 ^ 52" "- (t - 1) \<le> real k / 2 ^ 52"
    using hi lo t(1) e by linarith+
  then show ?thesis by (rule abs_leI)
qed

lemma near_half:
  assumes "near k t" and "real k \<le> 2 ^ 51"
  shows "1 / 2 \<le> t" and "t \<le> 2"
proof -
  have "\<bar>t - 1\<bar> \<le> real k / 2 ^ 52" using assms by (intro near_bound) simp_all
  moreover have "real k / 2 ^ 52 \<le> 1 / 2" using assms(2) by simp
  ultimately have "\<bar>t - 1\<bar> \<le> 1 / 2" by linarith
  then show "1 / 2 \<le> t" and "t \<le> 2" by linarith+
qed

lemma overflow_threshold_eq:
  "overflow_threshold / 2 = 2 powr 1023"
  "overflow_threshold = 2 ^ 53 * 2 powr of_int 971"
  "overflow_threshold / 2 = 2 ^ 1023"
  by (simp_all add: overflow_threshold_def)

lemma round64_Fin:
  assumes "\<bar>x\<bar> \<le> overflow_threshold / 2"
  shows "round64 (Fin x) = Fin (round_real x)"
proof (cases "x = 0")
  case True
  then show ?thesis by (simp add: round64.simps(1) round_real_def overflow_threshold_def)
next
  case False
  define Q :: real where "Q = 2 powr of_int 971"
  have Q: "0 < Q" "overflow_threshold = 9007199254740992 * Q"
    unfolding Q_def using overflow_threshold_eq(2) by simp_all
  have "\<bar>x\<bar> \<le> 2 powr 1023" using assms unfolding overflow_threshold_eq(1) .
  then have "log 2 \<bar>x\<bar> \<le> 1023"
    using False by (simp only: log_le_iff [of 2 "\<bar>x\<bar>" 1023])
  then have "\<lfloor>log 2 \<bar>x\<bar>\<rfloor> \<le> 1023" by (simp add: floor_le_iff)
  then have "quantum_exp x \<le> 971" by (simp add: quantum_exp_def)
  then have "(2::real) powr of_int (quantum_exp x) \<le> Q"
    unfolding Q_def by (intro powr_mono) simp_all
  then have "\<bar>round_real x - x\<bar> \<le> Q / 2"
    using round_real_abs_err [of x] by simp
  then have "\<bar>round_real x\<bar> < overflow_threshold"
    using assms Q by linarith
  then have "\<not> overflow_threshold \<le> round_real x" "\<not> round_real x \<le> - overflow_threshold"
    by linarith+
  then show ?thesis by (simp add: round64.simps(1) Let_def)
qed

lemma mag_mono:
  assumes "mag j x" and "j \<le> k"
  shows "mag k x"
proof -
  have "(2::real) ^ j \<le> 2 ^ k" using assms(2) by (intro power_increasing) simp_all
  moreover from this have "1 / (2::real) ^ k \<le> 1 / 2 ^ j" by (intro divide_left_mono) simp_all
  ultimately show ?thesis using assms(1) unfolding mag_def by linarith
qed

lemma mag_mult:
  assumes "mag j x" and "mag k y"
  shows "mag (j + k) (x * y)"
proof -
  have "1 / 2 ^ j * (1 / 2 ^ k) \<le> \<bar>x\<bar> * \<bar>y\<bar>"
    using assms unfolding mag_def by (intro mult_mono) simp_all
  moreover have "\<bar>x\<bar> * \<bar>y\<bar> \<le> 2 ^ j * 2 ^ k"
    using assms unfolding mag_def by (intro mult_mono) simp_all
  ultimately show ?thesis by (simp add: mag_def abs_mult power_add)
qed

lemma mag_inverse:
  assumes "mag k x"
  shows "mag k (1 / x)"
proof -
  have x: "0 < \<bar>x\<bar>" using assms unfolding mag_def
    by (smt (verit) divide_pos_pos zero_less_power)
  have "1 / 2 ^ k \<le> 1 / \<bar>x\<bar>" using assms x unfolding mag_def
    by (intro divide_left_mono) simp_all
  moreover have "1 / \<bar>x\<bar> \<le> 2 ^ k" using assms x unfolding mag_def
    by (simp add: field_simps)
  ultimately show ?thesis by (simp add: mag_def)
qed

lemma mag_divide:
  assumes "mag j x" and "mag k y"
  shows "mag (j + k) (x / y)"
  using mag_mult [OF assms(1) mag_inverse [OF assms(2)]] by simp

lemma mag_near:
  assumes "near k t" and "real k \<le> 2 ^ 51"
  shows "mag 1 t"
  using near_half [OF assms] by (simp add: mag_def)

lemma mag_of_int:
  assumes "1 \<le> n" and "n \<le> 2 ^ k"
  shows "mag k (of_int n)"
proof -
  have "(1::real) \<le> 2 ^ k" by simp
  then have a: "1 / (2::real) ^ k \<le> 1" by (simp add: field_simps)
  have b: "(1::real) \<le> of_int n" using assms(1) by simp
  have "real_of_int n \<le> real_of_int (2 ^ k)" using assms(2) by (simp only: of_int_le_iff)
  then have c: "real_of_int n \<le> 2 ^ k" by simp
  have "\<bar>real_of_int n\<bar> = of_int n" using b by simp
  then show ?thesis unfolding mag_def using a b c by linarith
qed

lemma round64_mag:
  assumes "mag k x" and "k \<le> 1022"
  shows "\<exists>t. round64 (Fin x) = Fin (x * t) \<and> near 1 t"
proof -
  have m: "mag 1022 x" using assms by (rule mag_mono)
  have lo: "2 powr (- 1022) \<le> \<bar>x\<bar>"
  proof -
    have "(2::real) powr (- 1022) = 1 / 2 ^ 1022" using powr_quantum [of 1022] by simp
    then show ?thesis using m unfolding mag_def by simp
  qed
  have hi: "\<bar>x\<bar> \<le> overflow_threshold / 2"
  proof -
    have "(2::real) ^ 1022 \<le> 2 ^ 1023" by (intro power_increasing) simp_all
    then show ?thesis using m unfolding mag_def overflow_threshold_eq(3) by linarith
  qed
  have err: "\<bar>round_real x - x\<bar> \<le> \<bar>x\<bar> / 2 ^ 53"
    using lo by (rule round_real_rel_err)
  have x: "x \<noteq> 0" using lo by (smt (verit) powr_gt_zero)
  define t where "t = round_real x / x"
  have rt: "round_real x = x * t" using x by (simp add: t_def)
  have "\<bar>x\<bar> * \<bar>t - 1\<bar> \<le> \<bar>x\<bar> * eps64"
    using err unfolding rt by (simp add: abs_mult [symmetric] algebra_simps eps64_def)
  then have "\<bar>t - 1\<bar> \<le> eps64" using x by simp
  then have t: "1 - eps64 \<le> t" "t \<le> 1 + eps64" by linarith+
  have "(1 + eps64) * (1 - eps64) \<le> 1" using eps64_bounds by (simp add: algebra_simps)
  moreover have "t * (1 - eps64) \<le> (1 + eps64) * (1 - eps64)"
    using t(2) eps64_bounds by (intro mult_right_mono) simp_all
  ultimately have "near 1 t" using t(1) by (simp add: near_def)
  then show ?thesis using round64_Fin [OF hi] rt by auto
qed

lemma round64_exact:
  assumes "round_real x = x" and "\<bar>x\<bar> \<le> 2 ^ 100"
  shows "round64 (Fin x) = Fin x"
proof -
  have "(2::real) ^ 100 \<le> 2 ^ 1023" by (intro power_increasing) simp_all
  then have "\<bar>x\<bar> \<le> overflow_threshold / 2"
    using assms(2) unfolding overflow_threshold_eq(3) by linarith
  then show ?thesis using round64_Fin [of x] assms(1) by simp
qed

lemma round_real_small_int:
  "round_real 0 = 0" "round_real 1 = 1" "round_real 2 = 2" "round_real 3 = 3" "round_real 4 = 4"
  using round_real_eval_frac [of 1 52 "2 ^ 52"] round_real_eval_frac [of 2 51 "2 ^ 52"]
    round_real_eval_frac [of 3 51 "3 * 2 ^ 51"] round_real_eval_frac [of 4 50 "2 ^ 52"]
  by (simp_all add: round_half_even_def round_real_def)

lemma D_small_int:
  "D 0 = Dbl (Fin 0)" "D 1 = Dbl (Fin 1)" "D 2 = Dbl (Fin 2)" "D 3 = Dbl (Fin 3)"
  "D 4 = Dbl (Fin 4)"
  unfolding D_def by (simp_all add: round64_exact round_real_small_int)

lemma weight_sum_step:
  "weight_sum (i + 1) = weight_sum i + (if even i then 2 else 4)"
  by (simp add: weight_sum_def)

lemma weight_sum_bounds:
  assumes "1 \<le> i"
  shows "2 \<le> weight_sum i" and "weight_sum i \<le> 3 * of_int i"
  using assms by (simp_all add: weight_sum_def)

lemma integrate_loop64_const:
  assumes c: "mag 400 c" and n: "n \<le> 2 ^ 41"
  shows "1 \<le> i \<Longrightarrow> i \<le> n \<Longrightarrow> near (nat i) t \<Longrightarrow>
    \<exists>t'. integrate_loop64 (\<lambda>x. Dbl (Fin c)) A H n i (Dbl (Fin (c * weight_sum i * t)))
           = Dbl (Fin (c * weight_sum n * t')) \<and> near (nat n) t'"
proof (induction "nat (n - i)" arbitrary: i t)
  case 0
  then have "i = n" by simp
  then show ?case using 0 by (subst integrate_loop64.simps) auto
next
  case (Suc k)
  then have lt: "i < n" by simp
  define w :: real where "w = (if even i then 2 else 4)"
  have w: "2 \<le> w" "w \<le> 4" by (simp_all add: w_def)
  have Dw: "(if i mod 2 = 0 then D 2 else D 4) = Dbl (Fin w)"
    by (simp add: w_def D_small_int even_iff_mod_2_eq_zero)
  have W: "2 \<le> weight_sum i" "weight_sum i \<le> 3 * of_int i"
    using weight_sum_bounds [OF Suc.prems(1)] by simp_all
  have ik: "real (nat i) \<le> 2 ^ 51"
  proof -
    have "i \<le> 2 ^ 41" using lt n by simp
    then have "real_of_int i \<le> real_of_int (2 ^ 41)" by (simp only: of_int_le_iff)
    then show ?thesis using Suc.prems(1) by simp
  qed
  have "mag 2 w" using w by (simp add: mag_def)
  then have "mag (2 + 400) (w * c)" using c by (rule mag_mult)
  then obtain p1 where p1: "round64 (Fin (w * c)) = Fin (w * c * p1)" "near 1 p1"
    using round64_mag [of "2 + 400"] by auto
  define s where "s = (weight_sum i * t + w * p1) / (weight_sum i + w)"
  have s_near: "near (nat i) s"
    unfolding s_def using Suc.prems(3) near_mono [OF p1(2), of "nat i"] Suc.prems(1) W w
    by (intro near_convex) simp_all
  have sum_eq: "c * weight_sum i * t + w * c * p1 = c * weight_sum (i + 1) * s"
    unfolding s_def weight_sum_step w_def [symmetric] using W w by (simp add: field_simps)
  have "mag 43 (weight_sum (i + 1))"
  proof -
    have "weight_sum (i + 1) \<le> 3 * of_int (i + 1)" "2 \<le> weight_sum (i + 1)"
      using weight_sum_bounds [of "i + 1"] Suc.prems(1) by simp_all
    moreover have "real_of_int (i + 1) \<le> real_of_int (2 ^ 41)"
      using lt n by (simp only: of_int_le_iff)
    ultimately show ?thesis by (simp add: mag_def)
  qed
  then have "mag (400 + 43 + 1) (c * weight_sum (i + 1) * s)"
    using c mag_near [OF s_near ik] by (intro mag_mult)
  then obtain p2 where p2: "round64 (Fin (c * weight_sum (i + 1) * s))
        = Fin (c * weight_sum (i + 1) * s * p2)" "near 1 p2"
    using round64_mag [of "400 + 43 + 1"] by auto
  have near': "near (nat (i + 1)) (s * p2)"
  proof -
    have "nat (i + 1) = nat i + 1" using Suc.prems(1) by simp
    then show ?thesis using near_mult [OF s_near p2(2)] by simp
  qed
  have "Dbl (Fin (c * weight_sum i * t)) + Dbl (Fin w) * Dbl (Fin c)
      = Dbl (round64 (Fin (c * weight_sum i * t + w * c * p1)))"
    by (simp add: p1)
  also have "\<dots> = Dbl (Fin (c * weight_sum (i + 1) * s * p2))"
    by (simp only: sum_eq p2)
  also have "\<dots> = Dbl (Fin (c * weight_sum (i + 1) * (s * p2)))"
    by (simp add: mult.assoc)
  finally have acc: "Dbl (Fin (c * weight_sum i * t)) + Dbl (Fin w) * Dbl (Fin c)
      = Dbl (Fin (c * weight_sum (i + 1) * (s * p2)))" .
  have step: "integrate_loop64 (\<lambda>x. Dbl (Fin c)) A H n i (Dbl (Fin (c * weight_sum i * t)))
      = integrate_loop64 (\<lambda>x. Dbl (Fin c)) A H n (i + 1)
          (Dbl (Fin (c * weight_sum (i + 1) * (s * p2))))"
    by (subst integrate_loop64.simps) (simp only: lt if_True Let_def Dw acc)
  have "k = nat (n - (i + 1))" using Suc.hyps(2) by simp
  from Suc.hyps(1) [OF this _ _ near'] lt Suc.prems(1) show ?case
    unfolding step by simp
qed

lemma integrate_loop64_zero:
  "integrate_loop64 (\<lambda>x. Dbl (Fin 0)) A H n i (Dbl (Fin 0)) = Dbl (Fin 0)"
proof (induction "nat (n - i)" arbitrary: i)
  case 0
  then show ?case by (subst integrate_loop64.simps) simp
next
  case (Suc k)
  then have k: "k = nat (n - (i + 1))" and lt: "i < n" by simp_all
  have z: "round64 (Fin 0) = Fin 0" by (simp add: round64_exact round_real_small_int)
  have "Dbl (Fin 0) + (if i mod 2 = 0 then D 2 else D 4) * Dbl (Fin 0) = Dbl (Fin 0)"
    by (simp add: D_small_int z)
  then show ?case
    using Suc.hyps(1) [OF k] lt by (subst integrate_loop64.simps) (simp add: Let_def)
qed

lemma integrate64_const:
  assumes ab: "a < b" and n: "1 \<le> n" "n \<le> 2 ^ 40"
    and c: "mag 400 c" and d: "mag 400 (b - a)"
  shows "\<exists>t. integrate64 (\<lambda>x. Dbl (Fin c)) (Dbl (Fin a)) (Dbl (Fin b)) (Some n)
           = Dbl (Fin (c * (b - a) * t)) \<and> near (nat n + 6) t"
proof -
  define m where "m = (if n mod 2 \<noteq> 0 then n + 1 else n)"
  have m: "2 \<le> m" "m \<le> 2 ^ 41" "even m" "m \<le> n + 1"
    using n by (auto simp: m_def)
  have mk: "real (nat m) \<le> 2 ^ 51"
  proof -
    have "real_of_int m \<le> real_of_int (2 ^ 41)" using m(2) by (simp only: of_int_le_iff)
    then show ?thesis using m(1) by simp
  qed
  have mm: "mag 41 (of_int m)" using m by (intro mag_of_int) simp_all
  obtain p1 where p1: "round64 (Fin (b - a)) = Fin ((b - a) * p1)" "near 1 p1"
    using round64_mag [OF d] by auto
  obtain p2 where p2: "round64 (Fin (of_int m)) = Fin (of_int m * p2)" "near 1 p2"
    using round64_mag [OF mm] by auto
  have p2m: "mag 1 p2" "mag 1 p1" using mag_near [OF p2(2)] mag_near [OF p1(2)] by simp_all
  have M1: "mag (400 + 1 + (41 + 1)) ((b - a) * p1 / (of_int m * p2))"
    using d p2m mm by (intro mag_divide mag_mult)
  from round64_mag [OF M1] obtain p3 where p3: "round64 (Fin ((b - a) * p1 / (of_int m * p2)))
        = Fin ((b - a) * p1 / (of_int m * p2) * p3)" "near 1 p3"
    by auto
  define q where "q = p1 / p2 * p3"
  have q: "near 3 q"
    unfolding q_def
    by (rule near_mono [OF near_mult [OF near_divide [OF p1(2) p2(2)] p3(2)]]) simp
  have mz: "real_of_int m * p2 \<noteq> 0" using m(1) near_pos [OF p2(2)] by simp
  define h where "h = (b - a) / of_int m * q"
  have h: "(Dbl (Fin b) - Dbl (Fin a)) / D (of_int m) = Dbl (Fin h)"
    using mz by (simp add: D_def p1 p2 p3 h_def q_def)
  have M2: "mag (400 + 1) (c * 2)" using c by (intro mag_mult) (simp_all add: mag_def)
  from round64_mag [OF M2] obtain p4 where p4: "round64 (Fin (c * 2)) = Fin (c * 2 * p4)" "near 1 p4"
    by auto
  have s0: "Dbl (Fin c) + Dbl (Fin c) = Dbl (Fin (c * weight_sum 1 * p4))"
    using p4(1) by (simp add: weight_sum_def mult_2_right)
  obtain t' where t': "integrate_loop64 (\<lambda>x. Dbl (Fin c)) (Dbl (Fin a)) (Dbl (Fin h)) m 1
        (Dbl (Fin (c * weight_sum 1 * p4))) = Dbl (Fin (c * weight_sum m * t'))"
      "near (nat m) t'"
    using integrate_loop64_const [OF c m(2), of 1 p4 "Dbl (Fin a)" "Dbl (Fin h)"] m(1) p4(2)
    by auto
  have wm: "weight_sum m = 3 * of_int m" using m(3) by (simp add: weight_sum_def)
  have prod1: "c * weight_sum m * t' * h = 3 * (c * (b - a)) * (t' * q)"
    using m(1) by (simp add: wm h_def)
  have tm: "mag 1 t'" using mag_near [OF t'(2) mk] .
  have qm: "mag 1 q" using mag_near [OF q] by simp
  have "mag 2 3" by (simp add: mag_def)
  then have M3: "mag (2 + (400 + 400) + (1 + 1)) (3 * (c * (b - a)) * (t' * q))"
    using c d tm qm by (intro mag_mult)
  from round64_mag [OF M3] obtain p5 where p5: "round64 (Fin (3 * (c * (b - a)) * (t' * q)))
        = Fin (3 * (c * (b - a)) * (t' * q) * p5)" "near 1 p5"
    by auto
  have p5m: "mag 1 p5" using mag_near [OF p5(2)] by simp
  have M4: "mag (400 + 400 + ((1 + 1) + 1)) (c * (b - a) * (t' * q * p5))"
    using c d tm qm p5m by (intro mag_mult)
  from round64_mag [OF M4] obtain p6 where p6: "round64 (Fin (c * (b - a) * (t' * q * p5)))
        = Fin (c * (b - a) * (t' * q * p5) * p6)" "near 1 p6"
    by auto
  define t where "t = t' * q * p5 * p6"
  have "near (nat m + 3 + 1 + 1) t"
    unfolding t_def by (intro near_mult t'(2) q p5(2) p6(2))
  then have t: "near (nat n + 6) t"
    by (rule near_mono) (use m(4) n(1) in simp)
  have e1: "Dbl (Fin (c * weight_sum m * t')) * Dbl (Fin h) / D 3
      = Dbl (round64 (Fin (3 * (c * (b - a)) * (t' * q) * p5 / 3)))"
    by (simp add: D_small_int prod1 p5)
  have e2: "3 * (c * (b - a)) * (t' * q) * p5 / 3 = c * (b - a) * (t' * q * p5)" by simp
  have e3: "c * (b - a) * (t' * q * p5) * p6 = c * (b - a) * t"
    by (simp add: t_def mult.assoc)
  have fin: "Dbl (Fin (c * weight_sum m * t')) * Dbl (Fin h) / D 3
      = Dbl (Fin (c * (b - a) * t))"
    unfolding e1 e2 p6(1) e3 ..
  have "integrate64 (\<lambda>x. Dbl (Fin c)) (Dbl (Fin a)) (Dbl (Fin b)) (Some n)
      = Dbl (Fin (c * (b - a) * t))"
    using ab unfolding integrate64_def
    by (simp only: option.case Let_def m_def [symmetric] h s0 t'(1) fin
        less_eq_double.simps less_eq_jsnum.simps) simp
  then show ?thesis using t by blast
qed

lemma integrate64_zero:
  assumes ab: "a < b" and n: "1 \<le> n" "n \<le> 2 ^ 40" and d: "mag 400 (b - a)"
  shows "integrate64 (\<lambda>x. Dbl (Fin 0)) (Dbl (Fin a)) (Dbl (Fin b)) (Some n) = Dbl (Fin 0)"
proof -
  define m where "m = (if n mod 2 \<noteq> 0 then n + 1 else n)"
  have m: "2 \<le> m" "m \<le> 2 ^ 41" using n by (auto simp: m_def)
  have mm: "mag 41 (of_int m)" using m by (intro mag_of_int) simp_all
  obtain p1 where p1: "round64 (Fin (b - a)) = Fin ((b - a) * p1)" "near 1 p1"
    using round64_mag [OF d] by auto
  obtain p2 where p2: "round64 (Fin (of_int m)) = Fin (of_int m * p2)" "near 1 p2"
    using round64_mag [OF mm] by auto
  have p2m: "mag 1 p2" "mag 1 p1" using mag_near [OF p2(2)] mag_near [OF p1(2)] by simp_all
  have M1: "mag (400 + 1 + (41 + 1)) ((b - a) * p1 / (of_int m * p2))"
    using d p2m mm by (intro mag_divide mag_mult)
  from round64_mag [OF M1] obtain p3 where p3: "round64 (Fin ((b - a) * p1 / (of_int m * p2)))
        = Fin ((b - a) * p1 / (of_int m * p2) * p3)" "near 1 p3"
    by auto
  have mz: "real_of_int m * p2 \<noteq> 0" using m(1) near_pos [OF p2(2)] by simp
  define h where "h = (b - a) * p1 / (of_int m * p2) * p3"
  have h: "(Dbl (Fin b) - Dbl (Fin a)) / D (of_int m) = Dbl (Fin h)"
    using mz by (simp add: D_def p1 p2 p3 h_def)
  have z: "round64 (Fin 0) = Fin 0" by (simp add: round64_exact round_real_small_int)
  have s0: "Dbl (Fin 0) + Dbl (Fin 0) = Dbl (Fin 0)" by (simp add: z)
  have fin: "Dbl (Fin 0) * Dbl (Fin h) / D 3 = Dbl (Fin 0)" by (simp add: z D_small_int)
  show ?thesis
    using ab unfolding integrate64_def
    by (simp only: option.case Let_def m_def [symmetric] h s0 integrate_loop64_zero fin
        less_eq_double.simps less_eq_jsnum.simps) simp
qed

lemma round64_eval:
  assumes "2 ^ 52 \<le> \<bar>x\<bar> * 2 ^ m" and "\<bar>x\<bar> * 2 ^ m < 2 ^ 53" and "m \<le> 1074"
    and "round_half_even (x * 2 ^ m) = k" and "\<bar>x\<bar> \<le> 2 ^ 100"
  shows "round64 (Fin x) = Fin (of_int k / 2 ^ m)"
proof -
  have "(2::real) ^ 100 \<le> 2 ^ 1023" by (intro power_increasing) simp_all
  then have "\<bar>x\<bar> \<le> overflow_threshold / 2"
    using assms(5) unfolding overflow_threshold_eq(3) by linarith
  then show ?thesis
    using round64_Fin [of x] round_real_eval_frac [OF assms(1-4)] by simp
qed

lemma round64_tenth:
  "round64 (Fin (1 / 10)) = Fin (3602879701896397 / 36028797018963968)"
  "round64 (Fin (3602879701896397 / 18014398509481984))
     = Fin (3602879701896397 / 18014398509481984)"
  "round64 (Fin (3602879701896397 / 9007199254740992))
     = Fin (3602879701896397 / 9007199254740992)"
  "round64 (Fin (10808639105689191 / 18014398509481984))
     = Fin (1351079888211149 / 2251799813685248)"
  "round64 (Fin (1351079888211149 / 4503599627370496))
     = Fin (1351079888211149 / 4503599627370496)"
  "round64 (Fin (1351079888211149 / 13510798882111488))
     = Fin (7205759403792795 / 72057594037927936)"
  "round64 (Fin (1 / 2)) = Fin (1 / 2)"
  "round64 (Fin (3602879701896397 / 36028797018963968))
     = Fin (3602879701896397 / 36028797018963968)"
  using round64_eval [of "1 / 10" 56 7205759403792794]
    round64_eval [of "3602879701896397 / 18014398509481984" 55 7205759403792794]
    round64_eval [of "3602879701896397 / 9007199254740992" 54 7205759403792794]
    round64_eval [of "10808639105689191 / 18014398509481984" 53 5404319552844596]
    round64_eval [of "1351079888211149 / 4503599627370496" 54 5404319552844596]
    round64_eval [of "1351079888211149 / 13510798882111488" 56 7205759403792795]
    round64_eval [of "1 / 2" 53 "2 ^ 52"]
    round64_eval [of "3602879701896397 / 36028797018963968" 56 7205759403792794]
  by (simp_all add: round_half_even_def)

section \<open>Claims\<close>

text \<open>
  C1. For two through-cut cavity geometries (at finite positions) whose determinant
  \<open>P1 * M2 - P2 * M1\<close> has absolute value at least \<open>1e-10\<close>, the solver computes two
  fill fractions by Cramer's rule, and substituting them back into the mass and moment
  sums gives a total weight equal to the target weight and a centre of gravity equal to
  the target, each within \<open>1e-9\<close>.
\<close>

theorem C1_differential_fill_exact:
  assumes cfg: "finite_config cfg"
    and det: "Fin (1 / 10 ^ 10) \<le> \<bar>designG_det (designG_system (Fin b) cfg)\<bar>"
  shows "\<exists>f1 f2. designG_fractions (designG_system (Fin b) cfg) = Some (f1, f2)
       \<and> designG_totals (designG_system (Fin b) cfg) f1 f2 = (TARGET_WEIGHT, TARGET_COG)
       \<and> \<bar>fst (designG_totals (designG_system (Fin b) cfg) f1 f2) - TARGET_WEIGHT\<bar>
            \<le> Fin (1 / 10 ^ 9)
       \<and> \<bar>snd (designG_totals (designG_system (Fin b) cfg) f1 f2) - TARGET_COG\<bar>
            \<le> Fin (1 / 10 ^ 9)"
proof -
  define s where "s = designG_system (Fin b) cfg"
  obtain v1 c1 v2 c2 ww rm where f: "P1 s = Fin (v1 * 11)" "P2 s = Fin (v2 * 11)"
      "M1 s = Fin (c1 * (v1 * 11))" "M2 s = Fin (c2 * (v2 * 11))"
      "g_woodWeight s = Fin ww" "g_wheelWeight s = Fin 0.49" "RHS1 s = Fin (5 - ww - 0.49)"
      "g_remainingWoodMoment s = Fin rm"
      "g_wheelMoment s = Fin (0.49 / 2 * 1.75 + 0.49 / 2 * 6)"
      "RHS2 s = Fin (5 * 5 - rm - (0.49 / 2 * 1.75 + 0.49 / 2 * 6))"
    using designG_system_Fin [OF cfg, of b] unfolding s_def by blast
  define p1 p2 m1 m2 where "p1 = v1 * 11" and "p2 = v2 * 11"
    and "m1 = c1 * (v1 * 11)" and "m2 = c2 * (v2 * 11)"
  define r1 r2 wm :: real where "r1 = 5 - ww - 0.49"
    and "r2 = 5 * 5 - rm - (0.49 / 2 * 1.75 + 0.49 / 2 * 6)"
    and "wm = 0.49 / 2 * 1.75 + 0.49 / 2 * 6"
  define d where "d = p1 * m2 - p2 * m1"
  note g = f [folded p1_def p2_def m1_def m2_def r1_def r2_def wm_def]
  have dets: "designG_det s = Fin d"
    by (simp add: designG_det_def g d_def)
  have d: "1 / 10 ^ 10 \<le> \<bar>d\<bar>"
    using det unfolding s_def [symmetric] dets by simp
  then have d0: "d \<noteq> 0" by auto
  have nlt: "\<not> \<bar>d\<bar> < 1 / 10 ^ 10" using d by simp
  define f1 f2 where "f1 = (r1 * m2 - r2 * p2) / d" and "f2 = (r2 * p1 - r1 * m1) / d"
  have fr: "designG_fractions s = Some (Fin f1, Fin f2)"
    using d0 nlt by (simp add: designG_fractions_def dets g f1_def f2_def Let_def)
  have "f1 * p1 + f2 * p2 = ((r1 * m2 - r2 * p2) * p1 + (r2 * p1 - r1 * m1) * p2) / d"
    by (simp add: f1_def f2_def add_divide_distrib)
  also have "(r1 * m2 - r2 * p2) * p1 + (r2 * p1 - r1 * m1) * p2 = r1 * d"
    by (simp add: d_def algebra_simps)
  finally have e1: "f1 * p1 + f2 * p2 = r1" using d0 by simp
  have "f1 * m1 + f2 * m2 = ((r1 * m2 - r2 * p2) * m1 + (r2 * p1 - r1 * m1) * m2) / d"
    by (simp add: f1_def f2_def add_divide_distrib)
  also have "(r1 * m2 - r2 * p2) * m1 + (r2 * p1 - r1 * m1) * m2 = r2 * d"
    by (simp add: d_def algebra_simps)
  finally have e2: "f1 * m1 + f2 * m2 = r2" using d0 by simp
  have wt: "ww + f1 * p1 + f2 * p2 + 49 / 100 = 5"
    using e1 by (simp add: r1_def)
  have mo: "rm + f1 * m1 + f2 * m2 + wm = 25"
    using e2 by (simp add: r2_def wm_def)
  have tot: "designG_totals s (Fin f1) (Fin f2) = (Fin 5, Fin 5)"
    by (simp add: designG_totals_def g Let_def wt mo)
  show ?thesis
    unfolding s_def [symmetric]
    by (intro exI [of _ "Fin f1"] exI [of _ "Fin f2"])
       (simp add: fr tot TARGET_WEIGHT_def TARGET_COG_def)
qed

theorem C1_differential_fill_exact_witness:
  "finite_config (configurations ! 0)
   \<and> Fin (1 / 10 ^ 10) \<le> \<bar>designG_det (designG_system (Fin 1) (configurations ! 0))\<bar>
   \<and> (\<exists>f1 f2. designG_fractions (designG_system (Fin 1) (configurations ! 0)) = Some (f1, f2)
         \<and> designG_totals (designG_system (Fin 1) (configurations ! 0)) f1 f2
             = (TARGET_WEIGHT, TARGET_COG))"
proof -
  define cfg where "cfg = configurations ! 0"
  have c: "fStart cfg = Fin 3.5" "fEnd cfg = Fin 5.75" "rStart cfg = Fin 6.25" "rEnd cfg = Fin 6.95"
    by (simp_all add: cfg_def configurations_def)
  have fin: "finite_config cfg" by (simp add: finite_config_def c)
  have v1: "cavVol (analyzeThroughCut (Fin 3.5) (Fin 5.75) (Some CAR_width) None) = Fin (3591 / 2176)"
    by (subst cavVol_seg2) (simp_all add: power2_eq_square)
  have v2: "cavVol (analyzeThroughCut (Fin 6.25) (Fin 6.95) (Some CAR_width) None) = Fin (2597 / 4000)"
    by (subst cavVol_seg3) (simp_all add: power2_eq_square)
  have c1: "cavCogX (analyzeThroughCut (Fin 3.5) (Fin 5.75) (Some CAR_width) None) = Fin (89 / 19)"
    by (subst cavCogX_affine [OF _ profile_seg2])
       (simp_all add: power2_eq_square power3_eq_cube)
  have c2: "cavCogX (analyzeThroughCut (Fin 6.25) (Fin 6.95) (Some CAR_width) None) = Fin (84001 / 12720)"
    by (subst cavCogX_affine [OF _ profile_seg3])
       (simp_all add: power2_eq_square power3_eq_cube)
  have det: "Fin (1 / 10 ^ 10) \<le> \<bar>designG_det (designG_system (Fin 1) cfg)\<bar>"
    unfolding designG_det_unfold c v1 v2 c1 c2 by (simp add: PUTTY_DENSITY_def)
  show ?thesis
    using C1_differential_fill_exact [OF fin det] fin det
    unfolding cfg_def by blast
qed

text \<open>
  C2. For every pair of cavities (at finite positions) with identical centroids, the
  determinant \<open>P1 * M2 - P2 * M1\<close> is below the singularity threshold and the solver
  skips the configuration: no fill fraction is computed.
\<close>

theorem C2_identical_centroids_singular:
  assumes cfg: "finite_config cfg"
    and same: "cavCogX (g_fCav (designG_system (Fin b) cfg))
                 = cavCogX (g_rCav (designG_system (Fin b) cfg))"
  shows "\<bar>designG_det (designG_system (Fin b) cfg)\<bar> < Fin (1 / 10 ^ 10)
       \<and> designG_fractions (designG_system (Fin b) cfg) = None
       \<and> designG_config (Fin b) cfg = G_Singular"
proof -
  define s where "s = designG_system (Fin b) cfg"
  obtain v1 c1 v2 c2 where f: "P1 s = Fin (v1 * 11)" "P2 s = Fin (v2 * 11)"
      "M1 s = Fin (c1 * (v1 * 11))" "M2 s = Fin (c2 * (v2 * 11))"
      "cavCogX (g_fCav s) = Fin c1" "cavCogX (g_rCav s) = Fin c2"
    using designG_system_Fin [OF cfg, of b] unfolding s_def by blast
  have "c1 = c2" using same f(5,6) unfolding s_def by simp
  then have det: "designG_det s = Fin 0"
    by (simp add: designG_det_def f)
  then have none: "designG_fractions s = None"
    by (simp add: designG_fractions_def)
  have "designG_config (Fin b) cfg = G_Singular"
    by (simp add: designG_config_def Let_def none [unfolded s_def])
  then show ?thesis
    using det none unfolding s_def by simp
qed

theorem C2_identical_centroids_singular_witness:
  "finite_config \<lparr> fStart = Fin 3.5, fEnd = Fin 5.75, rStart = Fin 3.5, rEnd = Fin 5.75,
                   name = ''coincident'' \<rparr>
   \<and> designG_config (Fin 1)
        \<lparr> fStart = Fin 3.5, fEnd = Fin 5.75, rStart = Fin 3.5, rEnd = Fin 5.75,
          name = ''coincident'' \<rparr> = G_Singular"
proof -
  define cfg where "cfg = \<lparr> fStart = Fin 3.5, fEnd = Fin 5.75, rStart = Fin 3.5,
                            rEnd = Fin 5.75, name = ''coincident'' \<rparr>"
  have fin: "finite_config cfg" by (simp add: cfg_def finite_config_def)
  have same: "cavCogX (g_fCav (designG_system (Fin 1) cfg))
                 = cavCogX (g_rCav (designG_system (Fin 1) cfg))"
    by (simp add: designG_system_def cfg_def Let_def)
  show ?thesis
    using C2_identical_centroids_singular [OF fin same] fin unfolding cfg_def by blast
qed

text \<open>
  C3. For every list of cavities (with finite volumes and removed masses) whose total
  fill capacity is positive, feeding the fraction returned by \<open>solveForTargetWeight\<close>
  back into \<open>computeCarWithCavity\<close> yields a total weight equal to the target weight,
  hence within \<open>1e-9\<close> of it.
\<close>

theorem C3_single_fill_round_trip:
  assumes fin: "\<forall>c \<in> set cavities. finite_cavity c"
    and pos: "Fin 0 < total_capacity cavities"
  shows "totalWeight (computeCarWithCavity (Fin b) cavities
                        (Some (solveForTargetWeight (Fin b) cavities))) = TARGET_WEIGHT
       \<and> \<bar>totalWeight (computeCarWithCavity (Fin b) cavities
                        (Some (solveForTargetWeight (Fin b) cavities))) - TARGET_WEIGHT\<bar>
           \<le> Fin (1 / 10 ^ 9)"
proof -
  define V where "V = (\<Sum>c\<leftarrow>cavities. real_of (cavVol c))"
  define R where "R = (\<Sum>c\<leftarrow>cavities. real_of (woodRemoved c))"
  have V: "0 < 11 * V" using pos unfolding total_capacity_Fin [OF fin] V_def by simp
  have f: "solveForTargetWeight (Fin b) cavities = Fin ((5 - (b - R) - 0.49) / (11 * V))"
    unfolding solveForTargetWeight_Fin [OF fin] V_def [symmetric] R_def [symmetric]
    using V by simp
  have "totalWeight (computeCarWithCavity (Fin b) cavities
                        (Some (solveForTargetWeight (Fin b) cavities)))
      = Fin ((b - R) + 11 * ((5 - (b - R) - 0.49) / (11 * V)) * V + 0.49)"
    unfolding f totalWeight_Fin [OF fin] V_def [symmetric] R_def [symmetric] ..
  also have "(b - R) + 11 * ((5 - (b - R) - 0.49) / (11 * V)) * V + 0.49 = 5"
    using V by (simp add: field_simps)
  finally show ?thesis by (simp add: TARGET_WEIGHT_def)
qed

theorem C3_single_fill_round_trip_witness:
  "finite_cavity (analyzeThroughCut (Fin 2.0) (Fin 5.75) (Some CAR_width) None)
   \<and> Fin 0 < total_capacity [analyzeThroughCut (Fin 2.0) (Fin 5.75) (Some CAR_width) None]
   \<and> totalWeight (computeCarWithCavity (Fin 1)
         [analyzeThroughCut (Fin 2.0) (Fin 5.75) (Some CAR_width) None]
         (Some (solveForTargetWeight (Fin 1)
            [analyzeThroughCut (Fin 2.0) (Fin 5.75) (Some CAR_width) None]))) = TARGET_WEIGHT"
proof -
  define A where "A = analyzeThroughCut (Fin 2.0) (Fin 5.75) (Some CAR_width) None"
  have fin: "\<forall>c \<in> set [A]. finite_cavity c" by (simp add: A_def finite_throughCut)
  have v: "cavVol A = Fin (1.75 * ((0.25 - 1.75 * (0.25 / 4.25)) * (5.75 - 2.0)
              + (0.25 / 4.25) * (5.75\<^sup>2 - 2.0\<^sup>2) / 2))"
    unfolding A_def by (rule cavVol_seg2) simp_all
  have pos: "Fin 0 < total_capacity [A]"
    unfolding total_capacity_Fin [OF fin] by (simp add: v power2_eq_square)
  show ?thesis
    using C3_single_fill_round_trip [OF fin pos, of 1] fin pos
    unfolding A_def by simp
qed

text \<open>
  C4 (as amended). For every zero-length cavity (\<open>start \<ge> end\<close>), whatever its width,
  both analyzers return zero volume and centroid 0, and the moment integral they compute
  is zero: the guard \<open>cavVol > 0\<close> keeps the centroid from being the quotient 0/0.
\<close>

theorem C4_zero_length_cavity:
  assumes "xS \<ge> xE"
  shows "cavVol (analyzeThroughCut xS xE w l) = Fin 0
       \<and> integrate (\<lambda>x. x * profileHeight x * or_default w CAR_width) xS xE None = Fin 0
       \<and> cavCogX (analyzeThroughCut xS xE w l) = Fin 0
       \<and> cavVol (analyzeBottomPocket xS xE d w l) = Fin 0
       \<and> integrate (\<lambda>x. x * Math_min d (profileHeight x) * or_default w CAR_width) xS xE None = Fin 0
       \<and> cavCogX (analyzeBottomPocket xS xE d w l) = Fin 0"
  using assms
  by (simp add: analyzeThroughCut_def analyzeBottomPocket_def Let_def integrate_empty)

theorem C4_zero_length_cavity_witness:
  "Fin 3 \<ge> Fin 3
   \<and> cavVol (analyzeThroughCut (Fin 3) (Fin 3) (Some (Fin 1.25)) None) = Fin 0
   \<and> cavCogX (analyzeThroughCut (Fin 3) (Fin 3) (Some (Fin 1.25)) None) = Fin 0
   \<and> cavVol (analyzeBottomPocket (Fin 3) (Fin 3) (Fin 0.5) (Some (Fin 1.25)) None) = Fin 0
   \<and> cavCogX (analyzeBottomPocket (Fin 3) (Fin 3) (Fin 0.5) (Some (Fin 1.25)) None) = Fin 0"
  using C4_zero_length_cavity [of "Fin 3" "Fin 3" "Some (Fin 1.25)" None "Fin 0.5"] by simp

text \<open>
  C4 as stated also covers a cavity of width zero. The analyzers read the width as
  \<open>cavityWidth || CAR.width\<close>, so a width of 0 is replaced by the car width: over the
  span \<open>[2, 3]\<close> a through-cut declared with width 0 has the volume of the full-width
  cut, not zero.
\<close>

theorem C4_counterexample:
  "cavVol (analyzeThroughCut (Fin 2) (Fin 3) (Some (Fin 0)) None) = Fin (35 / 68)
   \<and> cavVol (analyzeThroughCut (Fin 2) (Fin 3) (Some (Fin 0)) None) \<noteq> Fin 0"
proof -
  have w: "or_default (Some (Fin 0)) CAR_width = Fin 1.75"
    by (simp add: or_default_def CAR_width_def)
  have "cavVol (analyzeThroughCut (Fin 2) (Fin 3) (Some (Fin 0)) None)
      = Fin (1.75 * ((0.25 - 1.75 * (0.25 / 4.25)) * (3 - 2) + (0.25 / 4.25) * (3\<^sup>2 - 2\<^sup>2) / 2))"
    unfolding cavVol_throughCut w
    by (intro integrate_profile_affine(1) profile_seg2) simp_all
  also have "\<dots> = Fin (35 / 68)" by (simp add: power2_eq_square)
  finally show ?thesis by simp
qed

text \<open>
  C5 (as amended). For every cavity list (with finite entries) whose total full-fill
  capacity is zero, \<open>solveForTargetWeight\<close> applies no guard: it divides the needed putty
  mass by that zero and returns \<open>+Infinity\<close> when the needed mass is positive,
  \<open>-Infinity\<close> when it is negative, and NaN when it is zero. When the needed mass is
  not zero, the returned infinity fails the range test \<open>0 \<le> fraction \<le> 1\<close> that the
  grid searches apply to it.
\<close>

theorem C5_zero_capacity:
  assumes fin: "\<forall>c \<in> set cavities. finite_cavity c"
    and zero: "total_capacity cavities = Fin 0"
  shows "solveForTargetWeight (Fin b) cavities =
           (let neededPutty = 5 - (b - (\<Sum>c\<leftarrow>cavities. real_of (woodRemoved c))) - 0.49
            in if neededPutty = 0 then NaN else if 0 < neededPutty then PInf else NInf)
       \<and> (5 - (b - (\<Sum>c\<leftarrow>cavities. real_of (woodRemoved c))) - 0.49 \<noteq> 0 \<longrightarrow>
            solveForTargetWeight (Fin b) cavities < Fin 0
            \<or> solveForTargetWeight (Fin b) cavities > Fin 1.0)"
proof -
  have "Fin (11 * (\<Sum>c\<leftarrow>cavities. real_of (cavVol c))) = Fin 0"
    using zero unfolding total_capacity_Fin [OF fin] .
  then show ?thesis
    unfolding solveForTargetWeight_Fin [OF fin] by (simp add: Let_def)
qed

theorem C5_zero_capacity_witness:
  "finite_cavity (analyzeThroughCut (Fin 3) (Fin 3) None None)
   \<and> total_capacity [analyzeThroughCut (Fin 3) (Fin 3) None None] = Fin 0
   \<and> solveForTargetWeight (Fin 1) [analyzeThroughCut (Fin 3) (Fin 3) None None] = PInf
   \<and> solveForTargetWeight (Fin 1) [analyzeThroughCut (Fin 3) (Fin 3) None None] > Fin 1.0"
proof -
  have fin: "\<forall>c \<in> set [analyzeThroughCut (Fin 3) (Fin 3) None None]. finite_cavity c"
    by (simp add: finite_cavity_def degenerate_cavity)
  have zero: "total_capacity [analyzeThroughCut (Fin 3) (Fin 3) None None] = Fin 0"
    by (simp add: total_capacity_def degenerate_cavity PUTTY_DENSITY_def)
  show ?thesis
    using C5_zero_capacity [OF fin zero, of 1] fin zero by (simp add: degenerate_cavity)
qed

text \<open>
  C5 as stated says that the zero capacity is caught by a guard. There is none: for the
  empty cavity list and a base weight of 1 the function returns the quotient
  \<open>3.51 / 0\<close>, that is \<open>+Infinity\<close>.
\<close>

theorem C5_counterexample:
  "solveForTargetWeight (Fin 1) [] = PInf
   \<and> solveForTargetWeight (Fin 1) [] = Fin 3.51 / Fin 0"
  by (simp add: solveForTargetWeight_def TARGET_WEIGHT_def CAR_defs)

text \<open>
  C6 (as amended). The one-cavity grid search rejects a candidate for infeasibility if
  and only if its fill fraction is below 0 or above 1; the two-cavity grid search
  rejects a candidate pair for infeasibility if and only if its shared fill fraction is
  below 0.01 or above 1.
\<close>

theorem C6_feasibility_filters:
  "(designF_single b xS xE = Infeasible \<longleftrightarrow>
      solveForTargetWeight b [analyzeThroughCut xS xE (Some CAR_width) None] < Fin 0
      \<or> solveForTargetWeight b [analyzeThroughCut xS xE (Some CAR_width) None] > Fin 1)
   \<and> (designF_two b rS rE fS fE = Infeasible \<longleftrightarrow>
      solveForTargetWeight b [analyzeThroughCut fS fE (Some CAR_width) None,
                              analyzeThroughCut rS rE (Some CAR_width) None] < Fin 0.01
      \<or> solveForTargetWeight b [analyzeThroughCut fS fE (Some CAR_width) None,
                                analyzeThroughCut rS rE (Some CAR_width) None] > Fin 1)"
  using designF_single_Infeasible_iff designF_two_Infeasible_iff by blast

text \<open>
  C6 as stated says that the two-cavity search rejects exactly the fractions outside
  \<open>[0, 1]\<close>. For the base weight 4.535 and the pair of spans \<open>[3.0, 3.1]\<close> and
  \<open>[6.25, 6.35]\<close> the shared fraction is about 0.0049: inside \<open>[0, 1]\<close>, and rejected.
\<close>

theorem C6_counterexample:
  "Fin 0 \<le> solveForTargetWeight (Fin 4.535)
               [analyzeThroughCut (Fin 3.0) (Fin 3.1) (Some CAR_width) None,
                analyzeThroughCut (Fin 6.25) (Fin 6.35) (Some CAR_width) None]
   \<and> solveForTargetWeight (Fin 4.535)
               [analyzeThroughCut (Fin 3.0) (Fin 3.1) (Some CAR_width) None,
                analyzeThroughCut (Fin 6.25) (Fin 6.35) (Some CAR_width) None] \<le> Fin 1
   \<and> designF_two (Fin 4.535) (Fin 6.25) (Fin 6.35) (Fin 3.0) (Fin 3.1) = Infeasible"
proof -
  define front where "front = analyzeThroughCut (Fin 3.0) (Fin 3.1) (Some CAR_width) None"
  define rear where "rear = analyzeThroughCut (Fin 6.25) (Fin 6.35) (Some CAR_width) None"
  have vf: "cavVol front = Fin (1.75 * ((0.25 - 1.75 * (0.25 / 4.25)) * (3.1 - 3.0) + (0.25 / 4.25) * (3.1\<^sup>2 - 3.0\<^sup>2) / 2))"
    unfolding front_def by (rule cavVol_seg2) simp_all
  have vr: "cavVol rear = Fin (1.75 * (0.2 * (6.35 - 6.25) + 0.05 * (6.35\<^sup>2 - 6.25\<^sup>2) / 2))"
    unfolding rear_def by (rule cavVol_seg3) simp_all
  have wf: "woodRemoved front = cavVol front * WOOD_DENSITY"
    unfolding front_def by (rule woodRemoved_throughCut)
  have wr: "woodRemoved rear = cavVol rear * WOOD_DENSITY"
    unfolding rear_def by (rule woodRemoved_throughCut)
  have fin: "\<forall>c \<in> set [front, rear]. finite_cavity c"
    by (simp add: front_def rear_def finite_throughCut)
  have f: "solveForTargetWeight (Fin 4.535) [front, rear] = Fin (938848 / 192759875)"
    unfolding solveForTargetWeight_Fin [OF fin]
    by (simp add: wf wr vf vr WOOD_DENSITY_Fin power2_eq_square)
  show ?thesis
    unfolding designF_two_Infeasible_iff front_def [symmetric] rear_def [symmetric] f
    by simp
qed

text \<open>
  C7 (as amended). For every start position \<open>xS\<close> that the loop visits in a permitted
  region (from the region start up to 0.01 before the region end) and every required
  volume that lies between the volume of the shortest cavity the search considers, the
  span \<open>[xS, xS + 0.001]\<close>, and the maximum attainable volume up to the region end, the
  100-step bisection returns an end boundary \<open>xE\<close>, and the volume re-integrated over
  \<open>[xS, xE]\<close> matches the required volume to within \<open>1e-4\<close>.
\<close>

theorem C7_bisection_back_solve:
  assumes r: "r \<in> set validRegions"
    and start: "region_start r \<le> Fin xS" and stop: "Fin xS \<le> region_end r - Fin 0.01"
    and lower: "integrate (\<lambda>x. profileHeight x * CAR_width) (Fin xS) (Fin xS + Fin 0.001) None
                  \<le> Fin nv"
    and upper: "Fin nv \<le> integrate (\<lambda>x. profileHeight x * CAR_width) (Fin xS) (region_end r) None"
  shows "\<exists>xE. designH_endBoundary (Fin nv) (region_end r) (Fin xS) = Some xE
      \<and> \<bar>integrate (\<lambda>x. profileHeight x * CAR_width) (Fin xS) xE None - Fin nv\<bar>
          \<le> Fin (1 / 10 ^ 4)"
proof -
  consider (nose) "region_start r = Fin 0" "region_end r = Fin 1.5"
    | (mid) "region_start r = Fin 2.0" "region_end r = Fin 5.75"
    | (rear) "region_start r = Fin 6.25" "region_end r = Fin 7.0"
    using r by (auto simp: validRegions_def)
  then show ?thesis
  proof cases
    case nose
    have b: "0 \<le> xS" "xS + 0.001 \<le> 1.5" "1.5 - xS \<le> 7"
      using start stop unfolding nose by simp_all
    show ?thesis
      using upper unfolding nose
      by (intro back_solve_segment [where sa = 0 and sb = "1.75", OF profile_seg1 b(1,2) _ b(3) lower])
         simp_all
  next
    case mid
    have b: "1.75 \<le> xS" "xS + 0.001 \<le> 5.75" "5.75 - xS \<le> 7"
      using start stop unfolding mid by simp_all
    show ?thesis
      using upper unfolding mid
      by (intro back_solve_segment [where sa = "1.75" and sb = 6, OF profile_seg2 b(1,2) _ b(3) lower])
         simp_all
  next
    case rear
    have b: "6 \<le> xS" "xS + 0.001 \<le> 7.0" "7.0 - xS \<le> 7"
      using start stop unfolding rear by simp_all
    show ?thesis
      using upper unfolding rear
      by (intro back_solve_segment [where sa = 6 and sb = 7, OF profile_seg3 b(1,2) _ b(3) lower])
         simp_all
  qed
qed

theorem C7_bisection_back_solve_witness:
  "validRegions ! 1 \<in> set validRegions
   \<and> region_start (validRegions ! 1) \<le> Fin 4.5
   \<and> Fin 4.5 \<le> region_end (validRegions ! 1) - Fin 0.01
   \<and> integrate (\<lambda>x. profileHeight x * CAR_width) (Fin 4.5) (Fin 4.5 + Fin 0.001) None
        \<le> Fin 0.33
   \<and> Fin 0.33 \<le> integrate (\<lambda>x. profileHeight x * CAR_width) (Fin 4.5)
                     (region_end (validRegions ! 1)) None
   \<and> (\<exists>xE. designH_endBoundary (Fin 0.33) (region_end (validRegions ! 1)) (Fin 4.5) = Some xE
        \<and> \<bar>integrate (\<lambda>x. profileHeight x * CAR_width) (Fin 4.5) xE None - Fin 0.33\<bar>
            \<le> Fin (1 / 10 ^ 4))"
proof -
  define r where "r = validRegions ! 1"
  have rr: "region_start r = Fin 2.0" "region_end r = Fin 5.75"
    by (simp_all add: r_def validRegions_def)
  have mem: "r \<in> set validRegions" by (simp add: r_def validRegions_def)
  have start: "region_start r \<le> Fin 4.5" by (simp add: rr)
  have stop: "Fin 4.5 \<le> region_end r - Fin 0.01" by (simp add: rr)
  have lo_eq: "Fin 4.5 + Fin 0.001 = Fin 4.501" by simp
  have v1: "integrate (\<lambda>x. profileHeight x * CAR_width) (Fin 4.5) (Fin 4.501) None
      = Fin (span_volume (0.25 - 1.75 * (0.25 / 4.25)) (0.25 / 4.25) 4.5 4.501)"
    by (rule volume_affine [where sa = "1.75" and sb = 6, OF profile_seg2]) simp_all
  have v2: "integrate (\<lambda>x. profileHeight x * CAR_width) (Fin 4.5) (Fin 5.75) None
      = Fin (span_volume (0.25 - 1.75 * (0.25 / 4.25)) (0.25 / 4.25) 4.5 5.75)"
    by (rule volume_affine [where sa = "1.75" and sb = 6, OF profile_seg2]) simp_all
  have lower: "integrate (\<lambda>x. profileHeight x * CAR_width) (Fin 4.5) (Fin 4.5 + Fin 0.001) None
        \<le> Fin 0.33"
    unfolding lo_eq v1 by (simp add: span_volume_def power2_eq_square)
  have upper: "Fin 0.33 \<le> integrate (\<lambda>x. profileHeight x * CAR_width) (Fin 4.5) (region_end r) None"
    unfolding rr v2 by (simp add: span_volume_def power2_eq_square)
  show ?thesis
    using C7_bisection_back_solve [OF mem start stop lower upper] mem start stop lower upper
    unfolding r_def by blast
qed

text \<open>
  C7 as stated asks only that the maximum attainable volume be at least the required
  volume. The bisection starts from the bracket \<open>[xS + 0.001, region end]\<close>, so it cannot
  return a cavity shorter than 0.001: behind the rear axle, from \<open>xS = 6.25\<close>, every
  cavity it can return has a volume above \<open>2e-4\<close>, and for the required volume
  \<open>1e-4\<close> the result is off by more than \<open>1e-4\<close>.
\<close>

theorem C7_counterexample:
  "validRegions ! 2 \<in> set validRegions
   \<and> region_start (validRegions ! 2) \<le> Fin 6.25
   \<and> Fin 6.25 \<le> region_end (validRegions ! 2) - Fin 0.01
   \<and> Fin (1 / 10 ^ 4) \<le> integrate (\<lambda>x. profileHeight x * CAR_width) (Fin 6.25)
                             (region_end (validRegions ! 2)) None
   \<and> \<not> (\<exists>xE. designH_endBoundary (Fin (1 / 10 ^ 4)) (region_end (validRegions ! 2)) (Fin 6.25)
                = Some xE
        \<and> \<bar>integrate (\<lambda>x. profileHeight x * CAR_width) (Fin 6.25) xE None - Fin (1 / 10 ^ 4)\<bar>
            \<le> Fin (1 / 10 ^ 4))"
proof -
  define r where "r = validRegions ! 2"
  have rr: "region_start r = Fin 6.25" "region_end r = Fin 7"
    by (simp_all add: r_def validRegions_def)
  have mem: "r \<in> set validRegions" by (simp add: r_def validRegions_def)
  have v2: "integrate (\<lambda>x. profileHeight x * CAR_width) (Fin 6.25) (Fin 7) None
      = Fin (span_volume 0.2 0.05 6.25 7)"
    by (rule volume_affine [where sa = 6 and sb = 7, OF profile_seg3]) simp_all
  have up: "1 / 10 ^ 4 \<le> span_volume 0.2 0.05 6.25 7"
    by (simp add: span_volume_def power2_eq_square)
  obtain l' h' where e:
      "designH_endBoundary (Fin (1 / 10 ^ 4)) (Fin 7) (Fin 6.25) = Some (Fin ((l' + h') / 2))"
      "6.25 + 0.001 \<le> l'" "l' \<le> h'" "h' \<le> 7"
    using endBoundary_segment [where sa = 6 and sb = 7 and xS = "6.25" and re = 7, OF profile_seg3 _ _ _ up]
    by auto
  define xE where "xE = (l' + h') / 2"
  have xE: "6.251 \<le> xE" "xE \<le> 7" "6.25 < xE" using e(2,3,4) by (simp_all add: xE_def)
  have vol: "integrate (\<lambda>x. profileHeight x * CAR_width) (Fin 6.25) (Fin xE) None
      = Fin (span_volume 0.2 0.05 6.25 xE)"
    using xE by (intro volume_affine [where sa = 6 and sb = 7, OF profile_seg3]) simp_all
  have "span_volume 0.2 0.05 6.25 6.251 \<le> span_volume 0.2 0.05 6.25 xE"
    using xE by (intro span_volume_mono(1) [where sa = 6 and sb = 7, OF profile_seg3]) simp_all
  moreover have "2 / 10 ^ 4 < span_volume 0.2 0.05 6.25 6.251"
    by (simp add: span_volume_def power2_eq_square)
  ultimately have far: "\<not> \<bar>span_volume 0.2 0.05 6.25 xE - 1 / 10 ^ 4\<bar> \<le> 1 / 10 ^ 4"
    by linarith
  have no: "\<not> (\<exists>y. designH_endBoundary (Fin (1 / 10 ^ 4)) (Fin 7) (Fin 6.25) = Some y
        \<and> \<bar>integrate (\<lambda>x. profileHeight x * CAR_width) (Fin 6.25) y None - Fin (1 / 10 ^ 4)\<bar>
            \<le> Fin (1 / 10 ^ 4))"
  proof
    assume "\<exists>y. designH_endBoundary (Fin (1 / 10 ^ 4)) (Fin 7) (Fin 6.25) = Some y
        \<and> \<bar>integrate (\<lambda>x. profileHeight x * CAR_width) (Fin 6.25) y None - Fin (1 / 10 ^ 4)\<bar>
            \<le> Fin (1 / 10 ^ 4)"
    then obtain y where y: "designH_endBoundary (Fin (1 / 10 ^ 4)) (Fin 7) (Fin 6.25) = Some y"
      "\<bar>integrate (\<lambda>x. profileHeight x * CAR_width) (Fin 6.25) y None - Fin (1 / 10 ^ 4)\<bar>
            \<le> Fin (1 / 10 ^ 4)"
      by blast
    have "y = Fin xE" using y(1) unfolding e(1) xE_def by simp
    then have "\<bar>Fin (span_volume 0.2 0.05 6.25 xE) - Fin (1 / 10 ^ 4)\<bar> \<le> Fin (1 / 10 ^ 4)"
      using y(2) by (simp only: vol)
    then have "\<bar>span_volume 0.2 0.05 6.25 xE - 1 / 10 ^ 4\<bar> \<le> 1 / 10 ^ 4"
      by (simp only: Fin_minus abs_jsnum.simps less_eq_jsnum.simps)
    with far show False by simp
  qed
  have upper: "Fin (1 / 10 ^ 4) \<le> integrate (\<lambda>x. profileHeight x * CAR_width) (Fin 6.25) (Fin 7) None"
    unfolding v2 using up by simp
  show ?thesis
    unfolding r_def [symmetric] rr using mem no upper by simp
qed




text \<open>
  C9 (as amended). For every \<open>a < b\<close> with \<open>2 ^ (- 400) \<le> b - a \<le> 2 ^ 400\<close>, every
  constant \<open>c\<close> that is zero or of magnitude between \<open>2 ^ (- 400)\<close> and \<open>2 ^ 400\<close>, and
  every panel count \<open>1 \<le> n \<le> 2 ^ 40\<close>, \<open>integrate\<close> applied to the constant function
  \<open>f(x) = c\<close> over \<open>[a, b]\<close> returns, in binary64 arithmetic, a finite number within the
  relative error \<open>(n + 6) / 2 ^ 52\<close> of \<open>c * (b - a)\<close>.
\<close>

theorem C9_integrate64_constant:
  assumes "a < b" and "1 \<le> n" and "n \<le> 2 ^ 40"
    and "c = 0 \<or> 1 / 2 ^ 400 \<le> \<bar>c\<bar> \<and> \<bar>c\<bar> \<le> 2 ^ 400"
    and "1 / 2 ^ 400 \<le> b - a" and "b - a \<le> 2 ^ 400"
  shows "\<exists>r. integrate64 (\<lambda>x. Dbl (Fin c)) (Dbl (Fin a)) (Dbl (Fin b)) (Some n) = Dbl (Fin r)
           \<and> \<bar>r - c * (b - a)\<bar> \<le> (of_int n + 6) / 2 ^ 52 * \<bar>c * (b - a)\<bar>"
proof -
  have d: "mag 400 (b - a)" using assms(1,5,6) unfolding mag_def by linarith
  show ?thesis
  proof (cases "c = 0")
    case True
    show ?thesis
      unfolding True using integrate64_zero [OF assms(1-3) d] by simp
  next
    case False
    then have c: "mag 400 c" using assms(4) unfolding mag_def by blast
    obtain t where t: "integrate64 (\<lambda>x. Dbl (Fin c)) (Dbl (Fin a)) (Dbl (Fin b)) (Some n)
        = Dbl (Fin (c * (b - a) * t))" "near (nat n + 6) t"
      using integrate64_const [OF assms(1-3) c d] by blast
    have "real_of_int n \<le> real_of_int (2 ^ 40)" using assms(3) by (simp only: of_int_le_iff)
    then have k: "real (nat n + 6) \<le> 2 ^ 52" "real (nat n + 6) = of_int n + 6"
      using assms(2) by simp_all
    have "\<bar>t - 1\<bar> \<le> (of_int n + 6) / 2 ^ 52"
      using near_bound [OF t(2) k(1)] unfolding k(2) .
    then have "\<bar>c * (b - a)\<bar> * \<bar>t - 1\<bar> \<le> \<bar>c * (b - a)\<bar> * ((of_int n + 6) / 2 ^ 52)"
      by (intro mult_left_mono) simp_all
    moreover have "c * (b - a) * t - c * (b - a) = c * (b - a) * (t - 1)"
      by (simp add: algebra_simps)
    ultimately have "\<bar>c * (b - a) * t - c * (b - a)\<bar> \<le> (of_int n + 6) / 2 ^ 52 * \<bar>c * (b - a)\<bar>"
      by (simp only: abs_mult mult.commute)
    then show ?thesis using t(1) by blast
  qed
qed

theorem C9_integrate64_constant_witness:
  "\<exists>r. integrate64 (\<lambda>x. Dbl (Fin 3)) (Dbl (Fin 0)) (Dbl (Fin 1)) (Some 1000) = Dbl (Fin r)
     \<and> \<bar>r - 3 * (1 - 0)\<bar> \<le> (of_int 1000 + 6) / 2 ^ 52 * \<bar>3 * (1 - 0)\<bar>"
  using C9_integrate64_constant [of 0 1 1000 3] by simp

text \<open>
  C9 as stated fails in two ways. It quantifies over every panel count, and for the
  panel count 0 the step \<open>(b - a) / 0\<close> is infinite and so is the result. And it says
  ``exactly'': with two panels the constant 0.1 on \<open>[0, 1]\<close> gives
  \<open>7205759403792795 / 2 ^ 56\<close> (0.10000000000000002), one unit in the last place above
  \<open>0.1 * (1 - 0)\<close>, because the sum \<open>0.2 + 0.4\<close> and the division by 3 both round.
\<close>

theorem C9_counterexample:
  "integrate64 (\<lambda>x. D 0.1) (D 0) (D 1) (Some 0) = Dbl PInf
   \<and> D 0.1 * (D 1 - D 0) = Dbl (Fin (3602879701896397 / 36028797018963968))
   \<and> integrate64 (\<lambda>x. D 0.1) (D 0) (D 1) (Some 2)
       = Dbl (Fin (7205759403792795 / 72057594037927936))
   \<and> integrate64 (\<lambda>x. D 0.1) (D 0) (D 1) (Some 2) \<noteq> D 0.1 * (D 1 - D 0)"
proof -
  have z: "round64 (Fin 0) = Fin 0" "round64 (Fin 1) = Fin 1"
    by (simp_all add: round64_exact round_real_small_int)
  have t: "D 0.1 = Dbl (Fin (3602879701896397 / 36028797018963968))"
    by (simp add: D_def round64_tenth)
  have p: "D 0.1 * (D 1 - D 0) = Dbl (Fin (3602879701896397 / 36028797018963968))"
    unfolding t by (simp add: D_small_int z round64_tenth)
  have n0: "integrate64 (\<lambda>x. D 0.1) (D 0) (D 1) (Some 0) = Dbl PInf"
    unfolding t
    by (simp add: integrate64_def D_small_int z round64_tenth integrate_loop64.simps [of _ _ _ 0 1])
  have n2: "integrate64 (\<lambda>x. D 0.1) (D 0) (D 1) (Some 2)
      = Dbl (Fin (7205759403792795 / 72057594037927936))"
    unfolding t
    by (simp add: integrate64_def D_small_int z round64_tenth Let_def
        integrate_loop64.simps [of _ _ _ 2 1] integrate_loop64.simps [of _ _ _ 2 2])
  show ?thesis unfolding n0 n2 p by simp
qed

text \<open>
  C10. For every base weight and cavity list, \<open>computeCarWithCavity\<close> with the
  fill-fraction argument omitted returns exactly what it returns with fill fraction 1.0.
\<close>

theorem C10_default_fill_fraction:
  "computeCarWithCavity baseProfWeight cavities None
     = computeCarWithCavity baseProfWeight cavities (Some (Fin 1.0))"
  by (simp add: computeCarWithCavity_def)

end
